theory Spec2Isabelle
  imports Complex_Main "HOL-Library.Word"
begin

section \<open>Data model (parsejson.h)\<close>

text \<open>
  \<^verbatim>\<open>#define PARSER_NESTING_LIMIT 1000\<close>. The constant is compared with the
  \<^verbatim>\<open>uint32_t\<close> field \<^verbatim>\<open>depth\<close>, so it is read as an unsigned 32-bit value.
\<close>

definition PARSER_NESTING_LIMIT :: "32 word" where
  "PARSER_NESTING_LIMIT = 1000"

text \<open>
  \<^verbatim>\<open>struct ParseBuffer\<close>. The input is a \<^verbatim>\<open>std::string\<close>, a sequence of bytes;
  \<^verbatim>\<open>pos\<close> is a \<^verbatim>\<open>size_t\<close>, modelled as a natural number (it never exceeds the
  length of the input by more than one, so it cannot wrap).
\<close>

record ParseBuffer =
  raw_json :: string
  depth :: "32 word"
  pos :: nat

datatype JSONType = j_object | j_array | j_string | j_number | j_bool | j_null

text \<open>
  The field \<^verbatim>\<open>double_val\<close> holds what \<^verbatim>\<open>strtod\<close> returns. For a finite value the
  model keeps the exact value denoted by the consumed lexeme; the C value is its
  rounding to binary64, which is not modelled (nor is the sign of zero). \<open>Infinity neg\<close>
  is the infinity with the given sign (also the result of an overflow), \<open>NaN\<close> a NaN.
\<close>

datatype double_t = Finite rat | Infinity bool | NaN

text \<open>
  \<^verbatim>\<open>struct JSONItem\<close>. Pointers are heap addresses, \<open>None\<close> is \<^verbatim>\<open>NULL\<close>. The field
  \<^verbatim>\<open>next\<close> is called \<open>next_item\<close> here (and \<^verbatim>\<open>prev\<close> accordingly, \<open>prev_item\<close>); the
  other fields keep their names.
\<close>

record JSONItem =
  next_item :: "nat option"
  prev_item :: "nat option"
  child :: "nat option"
  name :: string
  type :: JSONType
  double_val :: double_t
  uint_val :: "64 word"
  int_val :: "64 word"
  string_val :: string
  bool_val :: bool

text \<open>
  \<^verbatim>\<open>class ParseError\<close> carries only a message. Each constructor stands for one
  message of the source, with the position where the message prints one:
  \<^item> \<open>BadNumber p\<close>: "bad double at pos: p"
  \<^item> \<open>PrematurelyTerminatedEscape p\<close>: "prematurely terminated escape sequence at pos: p"
  \<^item> \<open>UnknownEscape p\<close>: "unknown escape sequence at pos: p"
  \<^item> \<open>NestingLimitExceeded j_array p\<close>, \<open>NestingLimitExceeded j_object p\<close>:
    "max nesting limit of 1000 exceeded in array (object) at pos: p"
  \<^item> \<open>InvalidArrayContinuation p\<close>: "invalid array continuation at pos: p"
  \<^item> \<open>BadObjectMemberName p\<close>: "bad object member name at pos: p"
  \<^item> \<open>BadNameValueSeparator p\<close>: "bad object name-value separation at pos: p"
  \<^item> \<open>InvalidObjectContinuation p\<close>: "invalid object continuation at pos: p"
  \<^item> \<open>UnexpectedEOF\<close>: "unexpected EOF"
  \<^item> \<open>InvalidJSON\<close>: "invalid json"
  \<^item> \<open>TrailingJunk\<close>: "trailing junk"
\<close>

datatype ParseError =
    BadNumber nat
  | PrematurelyTerminatedEscape nat
  | UnknownEscape nat
  | NestingLimitExceeded JSONType nat
  | InvalidArrayContinuation nat
  | BadObjectMemberName nat
  | BadNameValueSeparator nat
  | InvalidObjectContinuation nat
  | UnexpectedEOF
  | InvalidJSON
  | TrailingJunk

text \<open>
  The ways a call can fail to return a value: a \<^verbatim>\<open>ParseError\<close> is thrown; the
  behaviour is undefined in C++ (a read of \<^verbatim>\<open>raw_json[pos]\<close> with \<^verbatim>\<open>pos > size()\<close>,
  or an access through a pointer to a deleted item); or the fuel of the model ran out
  (the recursion of the parser is bounded by a fuel argument, see below).
\<close>

datatype failure = Throw ParseError | Undefined | OutOfFuel

section \<open>Input cursor and lexical scanners\<close>

definition dquote :: char where "dquote = CHR 0x22"
definition backslash :: char where "backslash = CHR 0x5C"

text \<open>
  \<^verbatim>\<open>std::isspace\<close> and \<^verbatim>\<open>std::isdigit\<close> in the "C" locale (the program never sets
  another one): space, \<^verbatim>\<open>\t \n \v \f \r\<close>, and the ten decimal digits. Bytes above
  127 are in neither class.
\<close>

definition isspace :: "char \<Rightarrow> bool" where
  "isspace c = (of_char c = (32::nat) \<or> (9 \<le> (of_char c :: nat) \<and> (of_char c :: nat) \<le> 13))"

definition isdigit :: "char \<Rightarrow> bool" where
  "isdigit c = (48 \<le> (of_char c :: nat) \<and> (of_char c :: nat) \<le> 57)"

text \<open>
  \<^verbatim>\<open>raw_json[i]\<close> on a \<^verbatim>\<open>std::string\<close>: the byte at \<open>i\<close> below the size, the
  terminating \<^verbatim>\<open>'\0'\<close> at the size, undefined behaviour (\<open>None\<close>) beyond.
\<close>

definition at_index :: "string \<Rightarrow> nat \<Rightarrow> char option" where
  "at_index s i =
     (if i < length s then Some (s ! i)
      else if i = length s then Some (CHR 0x00)
      else None)"

definition char_at :: "ParseBuffer \<Rightarrow> char option" where
  "char_at b = at_index (raw_json b) (pos b)"

text \<open>
  \<^verbatim>\<open>void skip_whitespace(ParseBuffer &)\<close>: \<^verbatim>\<open>while (isspace(raw_json[pos])) pos++;\<close>
  The result is \<open>None\<close> when a read is out of range.
\<close>

function skip_whitespace :: "ParseBuffer \<Rightarrow> ParseBuffer option" where
  "skip_whitespace b =
     (case char_at b of
        None \<Rightarrow> None
      | Some c \<Rightarrow>
          if isspace c then skip_whitespace (b\<lparr>pos := pos b + 1\<rparr>)
          else Some b)"
  by pat_completeness auto
termination
  by (relation "measure (\<lambda>b. length (raw_json b) - pos b)")
     (auto simp: char_at_def at_index_def isspace_def split: if_splits)

declare skip_whitespace.simps [simp del]

definition can_read :: "ParseBuffer \<Rightarrow> nat \<Rightarrow> bool" where
  "can_read b bytes = (raw_json b \<noteq> [] \<and> pos b + bytes \<le> length (raw_json b))"

subsection \<open>The C library function strtod\<close>

text \<open>
  \<^verbatim>\<open>strtod\<close> belongs to the C library, not to this repository. It is modelled after
  ISO C 7.22.1.3: optional white space, an optional sign, then the longest of
  \<^item> a nonempty sequence of decimal digits optionally containing a radix character
    (\<^verbatim>\<open>.\<close> in the "C" locale), then an optional exponent \<^verbatim>\<open>e\<close>/\<^verbatim>\<open>E\<close>, optional sign,
    digits;
  \<^item> \<^verbatim>\<open>0x\<close> or \<^verbatim>\<open>0X\<close>, a nonempty sequence of hexadecimal digits optionally containing
    a radix character, then an optional binary exponent \<^verbatim>\<open>p\<close>/\<^verbatim>\<open>P\<close>, optional sign,
    decimal digits;
  \<^item> \<^verbatim>\<open>INF\<close> or \<^verbatim>\<open>INFINITY\<close>, ignoring case;
  \<^item> \<^verbatim>\<open>NAN\<close> or \<^verbatim>\<open>NAN(n-char-sequence)\<close>, ignoring case.
  \<open>strtod s\<close> returns the value and the number of bytes consumed, which is 0 when no
  conversion could be performed (\<^verbatim>\<open>endptr == nptr\<close>).
\<close>

definition digit_val :: "char \<Rightarrow> nat" where
  "digit_val c = of_char c - 48"

definition isxdigit :: "char \<Rightarrow> bool" where
  "isxdigit c = (isdigit c \<or> (65 \<le> (of_char c :: nat) \<and> (of_char c :: nat) \<le> 70)
                 \<or> (97 \<le> (of_char c :: nat) \<and> (of_char c :: nat) \<le> 102))"

definition xdigit_val :: "char \<Rightarrow> nat" where
  "xdigit_val c =
     (if isdigit c then of_char c - 48
      else if (of_char c :: nat) \<le> 70 then of_char c - 55
      else of_char c - 87)"

definition tolower :: "char \<Rightarrow> char" where
  "tolower c =
     (if 65 \<le> (of_char c :: nat) \<and> (of_char c :: nat) \<le> 90 then char_of (of_char c + (32::nat))
      else c)"

definition dec_value :: "string \<Rightarrow> nat" where
  "dec_value ds = foldl (\<lambda>a c. 10 * a + digit_val c) 0 ds"

definition hex_value :: "string \<Rightarrow> nat" where
  "hex_value ds = foldl (\<lambda>a c. 16 * a + xdigit_val c) 0 ds"

text \<open>\<open>scale m r e\<close> is \<open>m * r ^ e\<close> for an integer exponent \<open>e\<close>.\<close>

definition scale :: "nat \<Rightarrow> nat \<Rightarrow> int \<Rightarrow> rat" where
  "scale m r e =
     (if 0 \<le> e then of_nat m * of_nat r ^ nat e
      else of_nat m / of_nat r ^ nat (- e))"

text \<open>
  An optional exponent part after the mantissa: the marker (\<^verbatim>\<open>e\<close> or \<^verbatim>\<open>p\<close>, either
  case), an optional sign and at least one decimal digit. Returns the exponent and the
  number of bytes it takes, \<open>(0, 0)\<close> when there is no well-formed exponent part.
\<close>

definition exponent_part :: "char \<Rightarrow> string \<Rightarrow> int \<times> nat" where
  "exponent_part marker s =
     (case s of
        [] \<Rightarrow> (0, 0)
      | c # r \<Rightarrow>
          if tolower c \<noteq> marker then (0, 0)
          else
            let (neg, k, r') =
                  (case r of
                     [] \<Rightarrow> (False, 0, r)
                   | d # r'' \<Rightarrow>
                       if d = CHR ''-'' then (True, 1, r'')
                       else if d = CHR ''+'' then (False, 1, r'')
                       else (False, 0, r));
                ds = takeWhile isdigit r'
            in if ds = [] then (0, 0)
               else ((if neg then - int (dec_value ds) else int (dec_value ds)),
                     1 + k + length ds))"

definition decimal_float :: "string \<Rightarrow> (rat \<times> nat) option" where
  "decimal_float s =
     (let ip = takeWhile isdigit s;
          r1 = dropWhile isdigit s;
          dot = (r1 \<noteq> [] \<and> hd r1 = CHR ''.'');
          fp = (if dot then takeWhile isdigit (tl r1) else []);
          r2 = (if dot then dropWhile isdigit (tl r1) else r1)
      in if ip = [] \<and> fp = [] then None
         else
           let (e, k) = exponent_part (CHR ''e'') r2
           in Some (scale (dec_value (ip @ fp)) 10 (e - int (length fp)),
                    length ip + (if dot then 1 else 0) + length fp + k))"

definition hex_float :: "string \<Rightarrow> (rat \<times> nat) option" where
  "hex_float s =
     (case s of
        z # x # t \<Rightarrow>
          if z = CHR ''0'' \<and> tolower x = CHR ''x'' then
            let ip = takeWhile isxdigit t;
                r1 = dropWhile isxdigit t;
                dot = (r1 \<noteq> [] \<and> hd r1 = CHR ''.'');
                fp = (if dot then takeWhile isxdigit (tl r1) else []);
                r2 = (if dot then dropWhile isxdigit (tl r1) else r1)
            in if ip = [] \<and> fp = [] then None
               else
                 let (e, k) = exponent_part (CHR ''p'') r2
                 in Some (scale (hex_value (ip @ fp)) 2 (e - 4 * int (length fp)),
                          2 + length ip + (if dot then 1 else 0) + length fp + k)
          else None
      | _ \<Rightarrow> None)"

definition isnchar :: "char \<Rightarrow> bool" where
  "isnchar c = (isdigit c \<or> c = CHR ''_''
                \<or> (97 \<le> (of_char (tolower c) :: nat) \<and> (of_char (tolower c) :: nat) \<le> 122))"

definition inf_nan :: "bool \<Rightarrow> string \<Rightarrow> (double_t \<times> nat) option" where
  "inf_nan neg s =
     (if map tolower (take 8 s) = ''infinity'' then Some (Infinity neg, 8)
      else if map tolower (take 3 s) = ''inf'' then Some (Infinity neg, 3)
      else if map tolower (take 3 s) = ''nan'' then
        (let t = drop 3 s;
             ns = takeWhile isnchar (tl t);
             r = dropWhile isnchar (tl t)
         in if t \<noteq> [] \<and> hd t = CHR ''('' \<and> r \<noteq> [] \<and> hd r = CHR '')''
            then Some (NaN, 3 + 1 + length ns + 1)
            else Some (NaN, 3))
      else None)"

text \<open>
  The result of a conversion whose exact value is \<open>q\<close>. A value too large for a
  \<^verbatim>\<open>double\<close> gives \<^verbatim>\<open>HUGE_VAL\<close> with the sign of the value, an infinity in binary64;
  \<open>DBL_OVERFLOW\<close> is the least magnitude that rounds to it, \<open>2 ^ 1024 - 2 ^ 970\<close>
  (\<^verbatim>\<open>DBL_MAX\<close> and half a unit in its last place), written as a hexadecimal numeral.
  Below it the model keeps the exact value: rounding to 53 bits is not modelled.
\<close>

definition DBL_OVERFLOW :: rat where
  "DBL_OVERFLOW = 0xFFFFFFFFFFFFFC00000000000000000000000000000000000000000000000000000000000000000000000000000000000000000000000000000000000000000000000000000000000000000000000000000000000000000000000000000000000000000000000000000000000000000000000000000000000000000000000000"

definition to_double :: "rat \<Rightarrow> double_t" where
  "to_double q = (if DBL_OVERFLOW \<le> \<bar>q\<bar> then Infinity (q < 0) else Finite q)"

definition strtod :: "string \<Rightarrow> double_t \<times> nat" where
  "strtod s =
     (let ws = length (takeWhile isspace s);
          s1 = dropWhile isspace s;
          neg = (s1 \<noteq> [] \<and> hd s1 = CHR ''-'');
          sg = (if s1 \<noteq> [] \<and> (hd s1 = CHR ''-'' \<or> hd s1 = CHR ''+'') then 1 else 0);
          s2 = drop sg s1
      in case hex_float s2 of
           Some (v, n) \<Rightarrow> (to_double (if neg then - v else v), ws + sg + n)
         | None \<Rightarrow>
             (case decimal_float s2 of
                Some (v, n) \<Rightarrow> (to_double (if neg then - v else v), ws + sg + n)
              | None \<Rightarrow>
                  (case inf_nan neg s2 of
                     Some (v, n) \<Rightarrow> (v, ws + sg + n)
                   | None \<Rightarrow> (Finite 0, 0))))"

text \<open>
  \<^verbatim>\<open>double parse_number(ParseBuffer &)\<close>. \<^verbatim>\<open>strtod\<close> reads the C string that starts
  at \<^verbatim>\<open>raw_json.data() + pos\<close>; forming that address is undefined for
  \<^verbatim>\<open>pos > size()\<close>.
\<close>

definition parse_number :: "ParseBuffer \<Rightarrow> (failure + double_t) \<times> ParseBuffer" where
  "parse_number b =
     (if length (raw_json b) < pos b then (Inl Undefined, b)
      else
        let (double_val, n) = strtod (takeWhile (\<lambda>c. c \<noteq> CHR 0x00) (drop (pos b) (raw_json b)))
        in if n = 0 then (Inl (Throw (BadNumber (pos b))), b)
           else (Inr double_val, b\<lparr>pos := pos b + n\<rparr>))"

text \<open>
  \<^verbatim>\<open>std::string parse_string(ParseBuffer &)\<close>, called with the cursor just after the
  opening quote. \<open>parse_string_loop\<close> is the \<^verbatim>\<open>while\<close> loop with the local
  \<^verbatim>\<open>out_str\<close> as accumulator. In the \<^verbatim>\<open>switch\<close>, the cases \<^verbatim>\<open>b f n r t\<close> append
  and \<^verbatim>\<open>break\<close>; the cases for the quote, the backslash and the slash append and,
  having no \<^verbatim>\<open>break\<close>, continue into \<^verbatim>\<open>default\<close>, which throws.
\<close>

function parse_string_loop :: "string \<Rightarrow> ParseBuffer \<Rightarrow> (failure + string) \<times> ParseBuffer" where
  "parse_string_loop out_str b =
     (case char_at b of
        None \<Rightarrow> (Inl Undefined, b)
      | Some c \<Rightarrow>
          if c \<noteq> dquote \<and> pos b < length (raw_json b) then
            if c \<noteq> backslash then
              parse_string_loop (out_str @ [c]) (b\<lparr>pos := pos b + 1\<rparr>)
            else if length (raw_json b) - pos b < 2 then
              (Inl (Throw (PrematurelyTerminatedEscape (pos b))), b)
            else
              (case at_index (raw_json b) (pos b + 1) of
                 None \<Rightarrow> (Inl Undefined, b)
               | Some e \<Rightarrow>
                   if e = CHR ''b'' then
                     parse_string_loop (out_str @ [CHR 0x08]) (b\<lparr>pos := pos b + 2\<rparr>)
                   else if e = CHR ''f'' then
                     parse_string_loop (out_str @ [CHR 0x0C]) (b\<lparr>pos := pos b + 2\<rparr>)
                   else if e = CHR ''n'' then
                     parse_string_loop (out_str @ [CHR 0x0A]) (b\<lparr>pos := pos b + 2\<rparr>)
                   else if e = CHR ''r'' then
                     parse_string_loop (out_str @ [CHR 0x0D]) (b\<lparr>pos := pos b + 2\<rparr>)
                   else if e = CHR ''t'' then
                     parse_string_loop (out_str @ [CHR 0x09]) (b\<lparr>pos := pos b + 2\<rparr>)
                   else if e = dquote \<or> e = backslash \<or> e = CHR ''/'' then
                     (let out_str = out_str @ [e]
                      in (Inl (Throw (UnknownEscape (pos b))), b))
                   else
                     (Inl (Throw (UnknownEscape (pos b))), b))
          else (Inr out_str, b\<lparr>pos := pos b + 1\<rparr>))"
  by pat_completeness auto
termination
  by (relation "measure (\<lambda>(out_str, b). length (raw_json b) - pos b)") auto

declare parse_string_loop.simps [simp del]

definition parse_string :: "ParseBuffer \<Rightarrow> (failure + string) \<times> ParseBuffer" where
  "parse_string b = parse_string_loop [] b"

section \<open>Tree model: the heap of items\<close>

text \<open>
  Items live on the C++ heap. The model keeps every cell ever allocated in a list, the
  address of a cell being its index: \<open>Some item\<close> is a live object, \<open>None\<close> a deleted
  one. \<^verbatim>\<open>new JSONItem()\<close> value-initialises the object: null pointers, empty
  strings, zero scalars, and \<^verbatim>\<open>type\<close> 0, the first enumerator.
\<close>

type_synonym heap = "JSONItem option list"

definition zero_item :: JSONItem where
  "zero_item =
     \<lparr>next_item = None, prev_item = None, child = None, name = [], type = j_object,
      double_val = Finite 0, uint_val = 0, int_val = 0, string_val = [], bool_val = False\<rparr>"

definition new_JSONItem :: "heap \<Rightarrow> nat \<times> heap" where
  "new_JSONItem h = (length h, h @ [Some zero_item])"

definition deref :: "heap \<Rightarrow> nat \<Rightarrow> JSONItem option" where
  "deref h p = (if p < length h then h ! p else None)"

text \<open>The addresses of the live items: what the caller would still have to free.\<close>

definition live :: "heap \<Rightarrow> nat list" where
  "live h = filter (\<lambda>p. h ! p \<noteq> None) [0..<length h]"

text \<open>
  \<open>assign p f\<close> is an assignment \<^verbatim>\<open>p->field = value\<close>; \<open>delete_item p\<close> is
  \<^verbatim>\<open>delete p\<close>. Both are undefined on a pointer to no live item.
\<close>

definition assign :: "nat \<Rightarrow> (JSONItem \<Rightarrow> JSONItem) \<Rightarrow> heap \<Rightarrow> heap option" where
  "assign p f h =
     (case deref h p of
        None \<Rightarrow> None
      | Some it \<Rightarrow> Some (h[p := Some (f it)]))"

definition delete_item :: "nat \<Rightarrow> heap \<Rightarrow> heap option" where
  "delete_item p h =
     (case deref h p of
        None \<Rightarrow> None
      | Some it \<Rightarrow> Some (h[p := None]))"

section \<open>Tree teardown\<close>

text \<open>
  \<^verbatim>\<open>void destroy_json(JSONItem *item)\<close>: a loop along \<^verbatim>\<open>next\<close>, a recursive call
  for \<^verbatim>\<open>child\<close>. On a heap with a cycle the C++ function does not return; the model
  is bounded by fuel, one unit for every item visited.
\<close>

fun destroy_json :: "nat \<Rightarrow> nat option \<Rightarrow> heap \<Rightarrow> failure + heap" where
  "destroy_json n None h = Inr h"
| "destroy_json 0 (Some p) h = Inl OutOfFuel"
| "destroy_json (Suc n) (Some p) h =
     (case deref h p of
        None \<Rightarrow> Inl Undefined
      | Some it \<Rightarrow>
          let nxt = next_item it
          in case (if child it \<noteq> None then destroy_json n (child it) h else Inr h) of
               Inl f \<Rightarrow> Inl f
             | Inr h \<Rightarrow>
                 (case delete_item p h of
                    None \<Rightarrow> Inl Undefined
                  | Some h \<Rightarrow> destroy_json n nxt h))"

section \<open>Value dispatcher, array and object parsers\<close>

text \<open>
  The three parsers call each other, and the loops of the array and object parsers
  continue from the state a nested call leaves behind. As in the source, where
  \<^verbatim>\<open>parse_json\<close> is declared before \<^verbatim>\<open>parse_array\<close> and \<^verbatim>\<open>parse_object\<close> and
  defined after them, the array and object parsers take the dispatcher as an argument
  \<open>parse_json\<close>, and the dispatcher passes itself. The recursion is bounded by fuel: one
  unit for every iteration of a loop, one for every nested call of the dispatcher; a
  result \<open>Inl OutOfFuel\<close> says nothing about the program. The results carry the cursor
  and the heap as the call leaves them, also when it throws.
\<close>

type_synonym 'a result = "(failure + 'a) \<times> ParseBuffer \<times> heap"

text \<open>The branches of the \<^verbatim>\<open>try\<close> block of \<^verbatim>\<open>parse_json\<close> that do not recurse.\<close>

definition string_branch ::
  "nat \<Rightarrow> ParseBuffer \<Rightarrow> heap \<Rightarrow> (failure + unit) \<times> ParseBuffer \<times> heap" where
  "string_branch item b h =
     (case assign item (\<lambda>i. i\<lparr>type := j_string\<rparr>) h of
        None \<Rightarrow> (Inl Undefined, b, h)
      | Some h \<Rightarrow>
          (case parse_string (b\<lparr>pos := pos b + 1\<rparr>) of
             (Inl f, b) \<Rightarrow> (Inl f, b, h)
           | (Inr s, b) \<Rightarrow>
               (case assign item (\<lambda>i. i\<lparr>string_val := s\<rparr>) h of
                  None \<Rightarrow> (Inl Undefined, b, h)
                | Some h \<Rightarrow> (Inr (), b, h))))"

definition number_branch ::
  "nat \<Rightarrow> ParseBuffer \<Rightarrow> heap \<Rightarrow> (failure + unit) \<times> ParseBuffer \<times> heap" where
  "number_branch item b h =
     (case assign item (\<lambda>i. i\<lparr>type := j_number\<rparr>) h of
        None \<Rightarrow> (Inl Undefined, b, h)
      | Some h \<Rightarrow>
          (case parse_number b of
             (Inl f, b) \<Rightarrow> (Inl f, b, h)
           | (Inr d, b) \<Rightarrow>
               (case assign item (\<lambda>i. i\<lparr>double_val := d\<rparr>) h of
                  None \<Rightarrow> (Inl Undefined, b, h)
                | Some h \<Rightarrow> (Inr (), b, h))))"

definition literal_branch ::
  "nat \<Rightarrow> (JSONItem \<Rightarrow> JSONItem) \<Rightarrow> nat \<Rightarrow> ParseBuffer \<Rightarrow> heap
     \<Rightarrow> (failure + unit) \<times> ParseBuffer \<times> heap" where
  "literal_branch item f k b h =
     (case assign item f h of
        None \<Rightarrow> (Inl Undefined, b, h)
      | Some h \<Rightarrow> (Inr (), b\<lparr>pos := pos b + k\<rparr>, h))"

text \<open>\<^verbatim>\<open>raw_json.compare(pos, k, lit) == 0\<close>, for \<^verbatim>\<open>pos <= size()\<close>.\<close>

definition compare_at :: "ParseBuffer \<Rightarrow> nat \<Rightarrow> string \<Rightarrow> bool" where
  "compare_at b k lit = (take k (drop (pos b) (raw_json b)) = lit)"

text \<open>
  The linking step of both loops: the first item becomes \<^verbatim>\<open>head\<close> and
  \<^verbatim>\<open>current\<close>; a later one is linked behind \<^verbatim>\<open>current\<close> through \<^verbatim>\<open>next\<close> and
  \<^verbatim>\<open>prev\<close>. The result is the new \<^verbatim>\<open>head\<close>, \<^verbatim>\<open>current\<close> and heap.
\<close>

definition link_item ::
  "nat option \<Rightarrow> nat option \<Rightarrow> nat \<Rightarrow> heap \<Rightarrow> (nat option \<times> nat option \<times> heap) option" where
  "link_item head current new_item h =
     (case head of
        None \<Rightarrow> Some (Some new_item, Some new_item, h)
      | Some _ \<Rightarrow>
          (case current of
             None \<Rightarrow> None
           | Some cur \<Rightarrow>
               (case assign cur (\<lambda>i. i\<lparr>next_item := Some new_item\<rparr>) h of
                  None \<Rightarrow> None
                | Some h \<Rightarrow>
                    (case assign new_item (\<lambda>i. i\<lparr>prev_item := Some cur\<rparr>) h of
                       None \<Rightarrow> None
                     | Some h \<Rightarrow> Some (head, Some new_item, h)))))"

text \<open>\<^verbatim>\<open>JSONItem *parse_array(ParseBuffer &)\<close>: first its \<^verbatim>\<open>while\<close> loop.\<close>

primrec parse_array_loop ::
  "(ParseBuffer \<Rightarrow> heap \<Rightarrow> nat result) \<Rightarrow> nat \<Rightarrow> nat option \<Rightarrow> nat option
     \<Rightarrow> ParseBuffer \<Rightarrow> heap \<Rightarrow> nat option result"
where
  "parse_array_loop parse_json 0 head current b h = (Inl OutOfFuel, b, h)"
| "parse_array_loop parse_json (Suc n) head current b h =
     (case char_at b of
        None \<Rightarrow> (Inl Undefined, b, h)
      | Some c \<Rightarrow>
          if c \<noteq> CHR '']'' \<and> pos b < length (raw_json b) then
            (case skip_whitespace b of
               None \<Rightarrow> (Inl Undefined, b, h)
             | Some b \<Rightarrow>
                 (case parse_json b h of
                    (Inl f, b, h) \<Rightarrow> (Inl f, b, h)
                  | (Inr new_item, b, h) \<Rightarrow>
                      (case link_item head current new_item h of
                         None \<Rightarrow> (Inl Undefined, b, h)
                       | Some (head, current, h) \<Rightarrow>
                           (case skip_whitespace b of
                              None \<Rightarrow> (Inl Undefined, b, h)
                            | Some b \<Rightarrow>
                                (case char_at b of
                                   None \<Rightarrow> (Inl Undefined, b, h)
                                 | Some c \<Rightarrow>
                                     if c = CHR '']'' then (Inr head, b, h)
                                     else if c \<noteq> CHR '','' then
                                       (Inl (Throw (InvalidArrayContinuation (pos b))), b, h)
                                     else
                                       parse_array_loop parse_json n head current
                                         (b\<lparr>pos := pos b + 1\<rparr>) h)))))
          else (Inr head, b, h))"

definition parse_array ::
  "(ParseBuffer \<Rightarrow> heap \<Rightarrow> nat result) \<Rightarrow> nat \<Rightarrow> ParseBuffer \<Rightarrow> heap \<Rightarrow> nat option result"
where
  "parse_array parse_json n b h =
     (let b = b\<lparr>depth := depth b + 1\<rparr>
      in if PARSER_NESTING_LIMIT < depth b then
           (Inl (Throw (NestingLimitExceeded j_array (pos b))), b, h)
         else
           case skip_whitespace b of
             None \<Rightarrow> (Inl Undefined, b, h)
           | Some b \<Rightarrow>
               if char_at b = Some (CHR '']'') then (Inr None, b, h)
               else
                 (case parse_array_loop parse_json n None None b h of
                    (Inl f, b, h) \<Rightarrow> (Inl f, b, h)
                  | (Inr head, b, h) \<Rightarrow>
                      (case char_at b of
                         None \<Rightarrow> (Inl Undefined, b, h)
                       | Some c \<Rightarrow>
                           if c \<noteq> CHR '']'' then (Inl (Throw UnexpectedEOF), b, h)
                           else (Inr head, b\<lparr>pos := pos b + 1, depth := depth b - 1\<rparr>, h))))"

text \<open>\<^verbatim>\<open>JSONItem *parse_object(ParseBuffer &)\<close>: first its \<^verbatim>\<open>while\<close> loop.\<close>

primrec parse_object_loop ::
  "(ParseBuffer \<Rightarrow> heap \<Rightarrow> nat result) \<Rightarrow> nat \<Rightarrow> nat option \<Rightarrow> nat option
     \<Rightarrow> ParseBuffer \<Rightarrow> heap \<Rightarrow> nat option result"
where
  "parse_object_loop parse_json 0 head current b h = (Inl OutOfFuel, b, h)"
| "parse_object_loop parse_json (Suc n) head current b h =
     (case char_at b of
        None \<Rightarrow> (Inl Undefined, b, h)
      | Some c \<Rightarrow>
          if c \<noteq> CHR ''}'' \<and> pos b < length (raw_json b) then
            (case skip_whitespace b of
               None \<Rightarrow> (Inl Undefined, b, h)
             | Some b \<Rightarrow>
                 if \<not> can_read b 1 \<or> char_at b \<noteq> Some dquote then
                   (Inl (Throw (BadObjectMemberName (pos b))), b, h)
                 else
                   (case parse_string (b\<lparr>pos := pos b + 1\<rparr>) of
                      (Inl f, b) \<Rightarrow> (Inl f, b, h)
                    | (Inr member_name, b) \<Rightarrow>
                        (case skip_whitespace b of
                           None \<Rightarrow> (Inl Undefined, b, h)
                         | Some b \<Rightarrow>
                             if \<not> can_read b 1 \<or> char_at b \<noteq> Some (CHR '':'') then
                               (Inl (Throw (BadNameValueSeparator (pos b))), b, h)
                             else
                               (case skip_whitespace (b\<lparr>pos := pos b + 1\<rparr>) of
                                  None \<Rightarrow> (Inl Undefined, b\<lparr>pos := pos b + 1\<rparr>, h)
                                | Some b \<Rightarrow>
                                    (case parse_json b h of
                                       (Inl f, b, h) \<Rightarrow> (Inl f, b, h)
                                     | (Inr new_item, b, h) \<Rightarrow>
                                         (case link_item head current new_item h of
                                            None \<Rightarrow> (Inl Undefined, b, h)
                                          | Some (head, current, h) \<Rightarrow>
                                              (case assign new_item (\<lambda>i. i\<lparr>name := member_name\<rparr>) h of
                                                 None \<Rightarrow> (Inl Undefined, b, h)
                                               | Some h \<Rightarrow>
                                                   (case skip_whitespace b of
                                                      None \<Rightarrow> (Inl Undefined, b, h)
                                                    | Some b \<Rightarrow>
                                                        if char_at b = Some (CHR ''}'') then
                                                          (Inr head, b, h)
                                                        else if \<not> can_read b 1 \<or>
                                                                char_at b \<noteq> Some (CHR '','') then
                                                          (Inl (Throw (InvalidObjectContinuation (pos b))), b, h)
                                                        else
                                                          parse_object_loop parse_json n head current
                                                            (b\<lparr>pos := pos b + 1\<rparr>) h))))))))
          else (Inr head, b, h))"

definition parse_object ::
  "(ParseBuffer \<Rightarrow> heap \<Rightarrow> nat result) \<Rightarrow> nat \<Rightarrow> ParseBuffer \<Rightarrow> heap \<Rightarrow> nat option result"
where
  "parse_object parse_json n b h =
     (let b = b\<lparr>depth := depth b + 1\<rparr>
      in if PARSER_NESTING_LIMIT < depth b then
           (Inl (Throw (NestingLimitExceeded j_object (pos b))), b, h)
         else
           case skip_whitespace b of
             None \<Rightarrow> (Inl Undefined, b, h)
           | Some b \<Rightarrow>
               if char_at b = Some (CHR ''}'') then (Inr None, b, h)
               else
                 (case parse_object_loop parse_json n None None b h of
                    (Inl f, b, h) \<Rightarrow> (Inl f, b, h)
                  | (Inr head, b, h) \<Rightarrow>
                      (case char_at b of
                         None \<Rightarrow> (Inl Undefined, b, h)
                       | Some c \<Rightarrow>
                           if c \<noteq> CHR ''}'' then (Inl (Throw UnexpectedEOF), b, h)
                           else (Inr head, b\<lparr>pos := pos b + 1, depth := depth b - 1\<rparr>, h))))"

text \<open>
  The two branches of the \<^verbatim>\<open>try\<close> block for \<^verbatim>\<open>[\<close> and \<^verbatim>\<open>{\<close>: set the type,
  consume the bracket, call the container parser, store its result in \<^verbatim>\<open>child\<close>.
\<close>

definition container_branch ::
  "nat \<Rightarrow> JSONType \<Rightarrow> (ParseBuffer \<Rightarrow> heap \<Rightarrow> nat option result) \<Rightarrow> ParseBuffer \<Rightarrow> heap
     \<Rightarrow> unit result" where
  "container_branch item t parse_container b h =
     (case assign item (\<lambda>i. i\<lparr>type := t\<rparr>) h of
        None \<Rightarrow> (Inl Undefined, b, h)
      | Some h \<Rightarrow>
          (case parse_container (b\<lparr>pos := pos b + 1\<rparr>) h of
             (Inl f, b, h) \<Rightarrow> (Inl f, b, h)
           | (Inr c, b, h) \<Rightarrow>
               (case assign item (\<lambda>i. i\<lparr>child := c\<rparr>) h of
                  None \<Rightarrow> (Inl Undefined, b, h)
                | Some h \<Rightarrow> (Inr (), b, h))))"

text \<open>
  The \<^verbatim>\<open>catch\<close> clause of \<^verbatim>\<open>parse_json\<close> and the statements after the \<^verbatim>\<open>try\<close>
  block, applied to the outcome of the block. A \<^verbatim>\<open>ParseError\<close> is caught, the item
  destroyed and the error thrown again; the \<^verbatim>\<open>throw\<close> of "trailing junk" stands after
  the \<^verbatim>\<open>try\<close> block, outside the reach of the \<^verbatim>\<open>catch\<close>.
\<close>

definition catch_and_finish :: "nat \<Rightarrow> nat \<Rightarrow> unit result \<Rightarrow> nat result" where
  "catch_and_finish fuel item r =
     (case r of
        (Inl (Throw pe), b, h) \<Rightarrow>
          (case destroy_json fuel (Some item) h of
             Inl f \<Rightarrow> (Inl f, b, h)
           | Inr h \<Rightarrow> (Inl (Throw pe), b, h))
      | (Inl f, b, h) \<Rightarrow> (Inl f, b, h)
      | (Inr u, b, h) \<Rightarrow>
          (case skip_whitespace b of
             None \<Rightarrow> (Inl Undefined, b, h)
           | Some b \<Rightarrow>
               if depth b = 0 \<and> pos b \<noteq> length (raw_json b) then
                 (Inl (Throw TrailingJunk), b, h)
               else (Inr item, b, h)))"

text \<open>\<^verbatim>\<open>JSONItem *parse_json(ParseBuffer &)\<close>.\<close>

primrec parse_json :: "nat \<Rightarrow> ParseBuffer \<Rightarrow> heap \<Rightarrow> nat result" where
  "parse_json 0 b h = (Inl OutOfFuel, b, h)"
| "parse_json (Suc n) b h =
     (let (item, h) = new_JSONItem h
      in case skip_whitespace b of
           None \<Rightarrow> (Inl Undefined, b, h)
         | Some b \<Rightarrow>
             catch_and_finish (Suc n) item
               (if can_read b 1 \<and> char_at b = Some dquote then
                  string_branch item b h
                else if can_read b 1 \<and>
                        (char_at b = Some (CHR ''-'') \<or> char_at b = Some (CHR ''+'') \<or>
                         (case char_at b of None \<Rightarrow> False | Some c \<Rightarrow> isdigit c)) then
                  number_branch item b h
                else if can_read b 1 \<and> char_at b = Some (CHR ''['') then
                  container_branch item j_array (parse_array (parse_json n) (Suc n)) b h
                else if can_read b 1 \<and> char_at b = Some (CHR ''{'') then
                  container_branch item j_object (parse_object (parse_json n) (Suc n)) b h
                else if can_read b 4 \<and> compare_at b 4 ''null'' then
                  literal_branch item (\<lambda>i. i\<lparr>type := j_null\<rparr>) 4 b h
                else if can_read b 1 \<and> compare_at b 4 ''true'' then
                  literal_branch item (\<lambda>i. i\<lparr>type := j_bool, bool_val := True\<rparr>) 4 b h
                else if can_read b 1 \<and> compare_at b 5 ''false'' then
                  literal_branch item (\<lambda>i. i\<lparr>type := j_bool, bool_val := False\<rparr>) 5 b h
                else (Inl (Throw InvalidJSON), b, h)))"

text \<open>
  The public operation \<^verbatim>\<open>parse\<close> of the specification: \<^verbatim>\<open>parse_json\<close> on a fresh
  \<^verbatim>\<open>ParseBuffer\<close> holding the input (\<^verbatim>\<open>depth = 0\<close>, \<^verbatim>\<open>pos = 0\<close>) and an empty heap.
  The fuel is more than any nesting and any number of elements the input can hold.
\<close>

definition fresh_buffer :: "string \<Rightarrow> ParseBuffer" where
  "fresh_buffer bytes = \<lparr>raw_json = bytes, depth = 0, pos = 0\<rparr>"

definition parse :: "string \<Rightarrow> nat result" where
  "parse bytes = parse_json (length bytes + 1) (fresh_buffer bytes) []"

section \<open>Observing a result\<close>

definition outcome :: "'a result \<Rightarrow> failure + 'a" where
  "outcome r = fst r"

definition final_buffer :: "'a result \<Rightarrow> ParseBuffer" where
  "final_buffer r = fst (snd r)"

definition final_heap :: "'a result \<Rightarrow> heap" where
  "final_heap r = snd (snd r)"

text \<open>The item a successful call returns a pointer to.\<close>

definition root_item :: "nat result \<Rightarrow> JSONItem option" where
  "root_item r =
     (case outcome r of
        Inl f \<Rightarrow> None
      | Inr p \<Rightarrow> deref (final_heap r) p)"

text \<open>
  The addresses of a sibling chain, following \<^verbatim>\<open>next\<close> from a first pointer; \<open>None\<close>
  when the chain leaves the live items or does not end within \<open>n\<close> steps.
\<close>

fun chain :: "nat \<Rightarrow> heap \<Rightarrow> nat option \<Rightarrow> nat list option" where
  "chain n h None = Some []"
| "chain 0 h (Some p) = None"
| "chain (Suc n) h (Some p) =
     (case deref h p of
        None \<Rightarrow> None
      | Some it \<Rightarrow> map_option (\<lambda>ps. p # ps) (chain n h (next_item it)))"

text \<open>The items of the child chain of the item at \<open>p\<close>, in order.\<close>

definition children :: "heap \<Rightarrow> nat \<Rightarrow> JSONItem list option" where
  "children h p =
     (case deref h p of
        None \<Rightarrow> None
      | Some it \<Rightarrow>
          map_option (map (\<lambda>q. the (deref h q))) (chain (length h) h (child it)))"

text \<open>The text \<^verbatim>\<open>"a\"b"\<close>: a string literal with an escaped quote.\<close>

definition escaped_quote_text :: string where
  "escaped_quote_text = dquote # ''a'' @ [backslash, dquote] @ ''b'' @ [dquote]"

text \<open>
  The text \<^verbatim>\<open>"\b\f\n\r\t"\<close>: a string literal with the five escapes whose cases end in
  \<^verbatim>\<open>break\<close>.
\<close>

definition control_escapes_text :: string where
  "control_escapes_text =
     dquote # [backslash, CHR ''b'', backslash, CHR ''f'', backslash, CHR ''n'',
               backslash, CHR ''r'', backslash, CHR ''t''] @ [dquote]"

text \<open>The text \<^verbatim>\<open>"abc\<close>: a string literal that is not terminated.\<close>

definition unterminated_text :: string where
  "unterminated_text = dquote # ''abc''"

section \<open>Nested inputs\<close>

text \<open>
  Texts with a given nesting of containers. A level is a container that
  is open around the next level: an array, opened by \<^verbatim>\<open>[\<close> and closed by \<^verbatim>\<open>]\<close>, or an
  object with one member, opened by \<^verbatim>\<open>{"name":\<close> and closed by \<^verbatim>\<open>}\<close>. \<open>nest ls v\<close> is
  the text \<open>v\<close> inside the levels \<open>ls\<close>, outermost first, without white space.
\<close>

datatype level = ArrayLevel | ObjectLevel string

fun opener :: "level \<Rightarrow> string" where
  "opener ArrayLevel = ''[''"
| "opener (ObjectLevel nm) = CHR ''{'' # dquote # nm @ [dquote, CHR '':'']"

fun closer :: "level \<Rightarrow> string" where
  "closer ArrayLevel = '']''"
| "closer (ObjectLevel nm) = ''}''"

fun kind :: "level \<Rightarrow> JSONType" where
  "kind ArrayLevel = j_array"
| "kind (ObjectLevel nm) = j_object"

fun member :: "level \<Rightarrow> string" where
  "member ArrayLevel = []"
| "member (ObjectLevel nm) = nm"

fun nest :: "level list \<Rightarrow> string \<Rightarrow> string" where
  "nest [] v = v"
| "nest (l # ls) v = opener l @ nest ls v @ closer l"

definition openers :: "level list \<Rightarrow> string" where
  "openers ls = concat (map opener ls)"

text \<open>A member name that needs no escape: no quote and no backslash in it.\<close>

definition plain :: "string \<Rightarrow> bool" where
  "plain nm = list_all (\<lambda>c. c \<noteq> dquote \<and> c \<noteq> backslash) nm"

definition plain_levels :: "level list \<Rightarrow> bool" where
  "plain_levels ls = list_all (\<lambda>l. plain (member l)) ls"

definition literals :: "string list" where
  "literals = [''null'', ''true'', ''false'']"

text \<open>The item the dispatcher builds for a literal.\<close>

definition literal_item :: "string \<Rightarrow> JSONItem" where
  "literal_item v =
     (if v = ''null'' then zero_item\<lparr>type := j_null\<rparr>
      else if v = ''true'' then zero_item\<lparr>type := j_bool, bool_val := True\<rparr>
      else zero_item\<lparr>type := j_bool, bool_val := False\<rparr>)"

text \<open>
  The items of a parsed \<open>nest ls v\<close>, in the order of their allocation from address
  \<open>a\<close> on: one container for every level, its \<^verbatim>\<open>child\<close> the next address, and the
  item \<open>leaf\<close> of the innermost value; \<open>nm\<close> is the name of the first item, each further
  item is named by the level around it.
\<close>

fun nest_items :: "nat \<Rightarrow> string \<Rightarrow> level list \<Rightarrow> JSONItem \<Rightarrow> heap" where
  "nest_items a nm [] leaf = [Some (leaf\<lparr>name := nm\<rparr>)]"
| "nest_items a nm (l # ls) leaf =
     Some (zero_item\<lparr>type := kind l, child := Some (Suc a), name := nm\<rparr>)
       # nest_items (Suc a) (member l) ls leaf"

text \<open>
  The deepest nesting of brackets and braces in a text, counted from depth \<open>d\<close>. (String
  literals are not told apart: the count is meant for texts without brackets in them.)
\<close>

fun max_nesting_from :: "nat \<Rightarrow> string \<Rightarrow> nat" where
  "max_nesting_from d [] = d"
| "max_nesting_from d (c # cs) =
     (if c = CHR ''['' \<or> c = CHR ''{'' then max_nesting_from (Suc d) cs
      else if c = CHR '']'' \<or> c = CHR ''}'' then max d (max_nesting_from (d - 1) cs)
      else max_nesting_from d cs)"

definition max_nesting :: "string \<Rightarrow> nat" where
  "max_nesting s = max_nesting_from 0 s"

text \<open>
  The text \<^verbatim>\<open>[[],[[...[null]...]]]\<close>: an array of two elements, an empty array and
  \<^verbatim>\<open>null\<close> inside 1000 nested arrays, so that the deepest nesting is 1001.
\<close>

definition hidden_nesting_text :: string where
  "hidden_nesting_text = ''[[],'' @ nest (replicate 1000 ArrayLevel) ''null'' @ '']''"

text \<open>
  The text \<^verbatim>\<open>[1,[[...[null]...]]]\<close>: the same with the number \<^verbatim>\<open>1\<close> as first element.
\<close>

definition sibling_nesting_text :: string where
  "sibling_nesting_text = ''[1,'' @ nest (replicate 1000 ArrayLevel) ''null'' @ '']''"

text \<open>
  The C string that starts at the first byte of \<open>s\<close>: the bytes before the first
  \<^verbatim>\<open>'\0'\<close>. It is what \<^verbatim>\<open>strtod\<close> is given to read in \<^verbatim>\<open>parse_number\<close>.
\<close>

definition c_string :: "string \<Rightarrow> string" where
  "c_string s = takeWhile (\<lambda>c. c \<noteq> CHR 0x00) s"

text \<open>The item the dispatcher builds for a number of value \<open>v\<close>.\<close>

definition number_item :: "double_t \<Rightarrow> JSONItem" where
  "number_item v = zero_item\<lparr>type := j_number, double_val := v\<rparr>"

section \<open>Properties of the parsers\<close>

text \<open>The equations of \<open>parse_json\<close> are unfolded on request only.\<close>

declare parse_json.simps [simp del]

subsection \<open>Reading the input\<close>

text \<open>White space is skipped up to the first other byte, or to the end of the input.\<close>

lemma skip_whitespace_nonspace:
  "pos b < length (raw_json b) \<Longrightarrow> \<not> isspace (raw_json b ! pos b) \<Longrightarrow> skip_whitespace b = Some b"
  by (subst skip_whitespace.simps) (simp add: char_at_def at_index_def)

lemma skip_whitespace_end:
  "pos b = length (raw_json b) \<Longrightarrow> skip_whitespace b = Some b"
  by (subst skip_whitespace.simps) (simp add: char_at_def at_index_def isspace_def)

lemma skip_whitespace_eq:
  "pos b \<le> length (raw_json b) \<Longrightarrow>
   skip_whitespace b
     = Some (b\<lparr>pos := pos b + length (takeWhile isspace (drop (pos b) (raw_json b)))\<rparr>)"
proof (induction b rule: skip_whitespace.induct)
  case (1 b)
  show ?case
  proof (cases "pos b < length (raw_json b)")
    case True
    then have d: "drop (pos b) (raw_json b) = raw_json b ! pos b # drop (Suc (pos b)) (raw_json b)"
      by (simp add: Cons_nth_drop_Suc)
    have c: "char_at b = Some (raw_json b ! pos b)"
      using True by (simp add: char_at_def at_index_def)
    show ?thesis
    proof (cases "isspace (raw_json b ! pos b)")
      case sp: True
      have "skip_whitespace (b\<lparr>pos := pos b + 1\<rparr>)
          = Some (b\<lparr>pos := pos b + 1\<rparr>\<lparr>pos := pos (b\<lparr>pos := pos b + 1\<rparr>)
               + length (takeWhile isspace (drop (pos (b\<lparr>pos := pos b + 1\<rparr>)) (raw_json (b\<lparr>pos := pos b + 1\<rparr>))))\<rparr>)"
        by (rule "1.IH"[OF c sp]) (use True in simp)
      then show ?thesis
        using c sp d by (subst skip_whitespace.simps) simp
    next
      case False
      then show ?thesis
        using c d by (subst skip_whitespace.simps) simp
    qed
  next
    case False
    then have e: "pos b = length (raw_json b)" using "1.prems" by simp
    then show ?thesis
      by (subst skip_whitespace.simps) (simp add: char_at_def at_index_def isspace_def)
  qed
qed

lemma char_at_in: "pos b < length (raw_json b) \<Longrightarrow> char_at b = Some (raw_json b ! pos b)"
  by (simp add: char_at_def at_index_def)

lemma can_read_1: "pos b < length (raw_json b) \<Longrightarrow> can_read b (Suc 0)"
  by (auto simp: can_read_def)

lemma isspace_simps [simp]: "\<not> isspace (CHR ''['')" "\<not> isspace (CHR '']'')" "\<not> isspace (CHR ''{'')" "\<not> isspace (CHR ''}'')"
  "\<not> isspace (CHR 0x22)" "\<not> isspace (CHR '':'')" "\<not> isspace (CHR '','')"
  by (simp_all add: isspace_def)

lemma isdigit_simps [simp]: "\<not> isdigit (CHR ''['')" "\<not> isdigit (CHR ''{'')"
  by (simp_all add: isdigit_def)

subsection \<open>One level of nesting\<close>

text \<open>
  What the dispatcher does at an opening bracket, in terms of the nested call of the
  dispatcher for the single element: the error at entry when the depth passes the limit,
  the propagation of an error thrown by the nested call (the item of the container is
  destroyed, the depth stays raised), and the return of the container with the element
  as its only child.
\<close>

lemma destroy_single:
  "p < length h \<Longrightarrow> h ! p = Some it \<Longrightarrow> child it = None \<Longrightarrow> next_item it = None
   \<Longrightarrow> destroy_json (Suc f) (Some p) h = Inr (h[p := None])"
  by (simp add: deref_def delete_item_def)

lemma array_entry_limit:
  assumes "pos b < length (raw_json b)" "raw_json b ! pos b = CHR ''[''"
    and "PARSER_NESTING_LIMIT < depth b + 1"
  shows "parse_json (Suc f) b h =
     (Inl (Throw (NestingLimitExceeded j_array (pos b + 1))),
      b\<lparr>pos := pos b + 1, depth := depth b + 1\<rparr>, h @ [None])"
  using assms
  by (simp add: parse_json.simps new_JSONItem_def skip_whitespace_nonspace char_at_in can_read_1 dquote_def
      container_branch_def assign_def deref_def parse_array_def catch_and_finish_def delete_item_def
      zero_item_def)

lemma array_wrap_throws:
  assumes "pos b < length (raw_json b)" "raw_json b ! pos b = CHR ''[''"
    and "\<not> PARSER_NESTING_LIMIT < depth b + 1"
    and "Suc (pos b) < length (raw_json b)" "\<not> isspace (raw_json b ! Suc (pos b))"
        "raw_json b ! Suc (pos b) \<noteq> CHR '']''"
    and "parse_json f (b\<lparr>pos := pos b + 1, depth := depth b + 1\<rparr>) (h @ [Some (zero_item\<lparr>type := j_array\<rparr>)])
           = (Inl (Throw e), b2, h2)"
    and "length h < length h2" "h2 ! length h = Some (zero_item\<lparr>type := j_array\<rparr>)"
  shows "parse_json (Suc f) b h = (Inl (Throw e), b2, h2[length h := None])"
  using assms
  by (simp add: parse_json.simps new_JSONItem_def skip_whitespace_nonspace char_at_in can_read_1 dquote_def
      container_branch_def assign_def deref_def parse_array_def catch_and_finish_def delete_item_def
      zero_item_def)

lemma array_wrap_returns:
  assumes "pos b < length (raw_json b)" "raw_json b ! pos b = CHR ''[''"
    and "\<not> PARSER_NESTING_LIMIT < depth b + 1"
    and "Suc (pos b) < length (raw_json b)" "\<not> isspace (raw_json b ! Suc (pos b))"
        "raw_json b ! Suc (pos b) \<noteq> CHR '']''"
    and "parse_json f (b\<lparr>pos := pos b + 1, depth := depth b + 1\<rparr>) (h @ [Some (zero_item\<lparr>type := j_array\<rparr>)])
           = (Inr p, b2, h2)"
    and "pos b2 < length (raw_json b2)" "raw_json b2 ! pos b2 = CHR '']''"
    and "length h < length h2" "h2 ! length h = Some (zero_item\<lparr>type := j_array\<rparr>)"
    and "skip_whitespace (b2\<lparr>pos := pos b2 + 1, depth := depth b2 - 1\<rparr>) = Some b4"
    and "\<not> (depth b4 = 0 \<and> pos b4 \<noteq> length (raw_json b4))"
  shows "parse_json (Suc f) b h =
     (Inr (length h), b4, h2[length h := Some (zero_item\<lparr>type := j_array, child := Some p\<rparr>)])"
  using assms
  by (simp add: parse_json.simps new_JSONItem_def skip_whitespace_nonspace char_at_in can_read_1 dquote_def
      container_branch_def assign_def deref_def parse_array_def catch_and_finish_def delete_item_def
      link_item_def zero_item_def)

text \<open>The same for an opening brace, a member name without escapes and a colon.\<close>

lemma drop_eq_ConsD:
  "drop n xs = y # ys \<Longrightarrow> n < length xs \<and> xs ! n = y \<and> drop (Suc n) xs = ys"
  by (metis Cons_nth_drop_Suc drop_all list.distinct(1) list.inject not_le_imp_less)

lemma parse_string_loop_plain:
  "drop (pos b) (raw_json b) = nm @ dquote # rest \<Longrightarrow>
   \<forall>c\<in>set nm. c \<noteq> dquote \<and> c \<noteq> backslash \<Longrightarrow>
   parse_string_loop acc b = (Inr (acc @ nm), b\<lparr>pos := pos b + length nm + 1\<rparr>)"
proof (induction nm arbitrary: acc b)
  case Nil
  then have "pos b < length (raw_json b)" "raw_json b ! pos b = dquote"
    using drop_eq_ConsD[of "pos b" "raw_json b" dquote rest] by auto
  then show ?case
    by (subst parse_string_loop.simps) (simp add: char_at_def at_index_def)
next
  case (Cons c nm)
  from Cons.prems(1) have d: "pos b < length (raw_json b)" "raw_json b ! pos b = c"
    "drop (Suc (pos b)) (raw_json b) = nm @ dquote # rest"
    using drop_eq_ConsD[of "pos b" "raw_json b" c "nm @ dquote # rest"] by auto
  from Cons.prems(2) have c: "c \<noteq> dquote" "c \<noteq> backslash" and r: "\<forall>c\<in>set nm. c \<noteq> dquote \<and> c \<noteq> backslash"
    by auto
  have "parse_string_loop (acc @ [c]) (b\<lparr>pos := pos b + 1\<rparr>)
        = (Inr ((acc @ [c]) @ nm), b\<lparr>pos := pos b + 1\<rparr>\<lparr>pos := pos (b\<lparr>pos := pos b + 1\<rparr>) + length nm + 1\<rparr>)"
    by (rule Cons.IH) (use d r in simp_all)
  then show ?case
    using d c by (subst parse_string_loop.simps) (simp add: char_at_def at_index_def)
qed

lemma object_entry_limit:
  assumes "pos b < length (raw_json b)" "raw_json b ! pos b = CHR ''{''"
    and "PARSER_NESTING_LIMIT < depth b + 1"
  shows "parse_json (Suc f) b h =
     (Inl (Throw (NestingLimitExceeded j_object (pos b + 1))),
      b\<lparr>pos := pos b + 1, depth := depth b + 1\<rparr>, h @ [None])"
  using assms
  by (simp add: parse_json.simps new_JSONItem_def skip_whitespace_nonspace char_at_in can_read_1 dquote_def
      container_branch_def assign_def deref_def parse_object_def catch_and_finish_def delete_item_def
      zero_item_def)

lemma object_wrap_returns:
  assumes raw: "drop (pos b) (raw_json b) = CHR ''{'' # dquote # nm @ dquote # CHR '':'' # c # rest"
    and nm: "\<forall>c\<in>set nm. c \<noteq> dquote \<and> c \<noteq> backslash"
    and c: "\<not> isspace c"
    and lim: "\<not> PARSER_NESTING_LIMIT < depth b + 1"
    and inner: "parse_json f (b\<lparr>depth := depth b + 1, pos := pos b + length nm + 4\<rparr>)
                  (h @ [Some zero_item]) = (Inr p, b2, h2)"
    and b2: "pos b2 < length (raw_json b2)" "raw_json b2 ! pos b2 = CHR ''}''"
    and frame: "length h < length h2" "h2 ! length h = Some zero_item"
    and p: "p < length h2" "h2 ! p = Some it" "p \<noteq> length h"
    and fin: "skip_whitespace (b2\<lparr>pos := pos b2 + 1, depth := depth b2 - 1\<rparr>) = Some b4"
        "\<not> (depth b4 = 0 \<and> pos b4 \<noteq> length (raw_json b4))"
  shows "parse_json (Suc f) b h =
     (Inr (length h), b4,
      h2[p := Some (it\<lparr>name := nm\<rparr>), length h := Some (zero_item\<lparr>child := Some p\<rparr>)])"
proof -
  from raw have r0: "pos b < length (raw_json b)" "raw_json b ! pos b = CHR ''{''"
    and r1: "drop (Suc (pos b)) (raw_json b) = dquote # nm @ dquote # CHR '':'' # c # rest"
    using drop_eq_ConsD[OF raw] by auto
  from r1 have r1': "Suc (pos b) < length (raw_json b)" "raw_json b ! Suc (pos b) = dquote"
    and r2: "drop (Suc (Suc (pos b))) (raw_json b) = nm @ dquote # CHR '':'' # c # rest"
    using drop_eq_ConsD[OF r1] by auto
  have ps: "parse_string (b\<lparr>depth := depth b + 1, pos := Suc (Suc (pos b))\<rparr>)
      = (Inr nm, b\<lparr>depth := depth b + 1, pos := pos b + length nm + 3\<rparr>)"
    unfolding parse_string_def
    using parse_string_loop_plain[of "b\<lparr>depth := depth b + 1, pos := Suc (Suc (pos b))\<rparr>" nm "CHR '':'' # c # rest" "[]"] r2 nm
    by (simp add: add.commute)
  have "drop (pos b + length nm + 2) (raw_json b) = dquote # CHR '':'' # c # rest"
    using r2 by (metis add.commute add_2_eq_Suc' append_eq_conv_conj drop_drop)
  then have r3: "drop (pos b + length nm + 3) (raw_json b) = CHR '':'' # c # rest"
    using drop_eq_ConsD[of "pos b + length nm + 2" "raw_json b" dquote] by (simp add: numeral_3_eq_3)
  then have r3': "pos b + length nm + 3 < length (raw_json b)" "raw_json b ! (pos b + length nm + 3) = CHR '':''"
    and r4: "drop (pos b + length nm + 4) (raw_json b) = c # rest"
    using drop_eq_ConsD[OF r3] by (simp_all add: numeral_eq_Suc)
  from r4 have r4': "pos b + length nm + 4 < length (raw_json b)" "raw_json b ! (pos b + length nm + 4) = c"
    using drop_eq_ConsD[OF r4] by auto
  show ?thesis
    using r0 r1' r3' r4' c lim inner b2 frame p fin ps
    by (simp add: parse_json.simps new_JSONItem_def skip_whitespace_nonspace char_at_in can_read_1 dquote_def
      container_branch_def assign_def deref_def parse_object_def catch_and_finish_def delete_item_def
      link_item_def zero_item_def numeral_eq_Suc)
qed

lemma object_wrap_throws:
  assumes raw: "drop (pos b) (raw_json b) = CHR ''{'' # dquote # nm @ dquote # CHR '':'' # c # rest"
    and nm: "\<forall>c\<in>set nm. c \<noteq> dquote \<and> c \<noteq> backslash"
    and c: "\<not> isspace c"
    and lim: "\<not> PARSER_NESTING_LIMIT < depth b + 1"
    and inner: "parse_json f (b\<lparr>depth := depth b + 1, pos := pos b + length nm + 4\<rparr>)
                  (h @ [Some zero_item]) = (Inl (Throw e), b2, h2)"
    and frame: "length h < length h2" "h2 ! length h = Some zero_item"
  shows "parse_json (Suc f) b h = (Inl (Throw e), b2, h2[length h := None])"
proof -
  from raw have r0: "pos b < length (raw_json b)" "raw_json b ! pos b = CHR ''{''"
    and r1: "drop (Suc (pos b)) (raw_json b) = dquote # nm @ dquote # CHR '':'' # c # rest"
    using drop_eq_ConsD[OF raw] by auto
  from r1 have r1': "Suc (pos b) < length (raw_json b)" "raw_json b ! Suc (pos b) = dquote"
    and r2: "drop (Suc (Suc (pos b))) (raw_json b) = nm @ dquote # CHR '':'' # c # rest"
    using drop_eq_ConsD[OF r1] by auto
  have ps: "parse_string (b\<lparr>depth := depth b + 1, pos := Suc (Suc (pos b))\<rparr>)
      = (Inr nm, b\<lparr>depth := depth b + 1, pos := pos b + length nm + 3\<rparr>)"
    unfolding parse_string_def
    using parse_string_loop_plain[of "b\<lparr>depth := depth b + 1, pos := Suc (Suc (pos b))\<rparr>" nm "CHR '':'' # c # rest" "[]"] r2 nm
    by (simp add: add.commute)
  have "drop (pos b + length nm + 2) (raw_json b) = dquote # CHR '':'' # c # rest"
    using r2 by (metis add.commute add_2_eq_Suc' append_eq_conv_conj drop_drop)
  then have r3: "drop (pos b + length nm + 3) (raw_json b) = CHR '':'' # c # rest"
    using drop_eq_ConsD[of "pos b + length nm + 2" "raw_json b" dquote] by (simp add: numeral_3_eq_3)
  then have r3': "pos b + length nm + 3 < length (raw_json b)" "raw_json b ! (pos b + length nm + 3) = CHR '':''"
    and r4: "drop (pos b + length nm + 4) (raw_json b) = c # rest"
    using drop_eq_ConsD[OF r3] by (simp_all add: numeral_eq_Suc)
  from r4 have r4': "pos b + length nm + 4 < length (raw_json b)" "raw_json b ! (pos b + length nm + 4) = c"
    using drop_eq_ConsD[OF r4] by auto
  show ?thesis
    using r0 r1' r3' r4' c lim inner frame ps
    by (simp add: parse_json.simps new_JSONItem_def skip_whitespace_nonspace char_at_in can_read_1 dquote_def
      container_branch_def assign_def deref_def parse_object_def catch_and_finish_def delete_item_def
      link_item_def zero_item_def numeral_eq_Suc)
qed

subsection \<open>Literals\<close>

lemma after_value:
  assumes "drop p xs = ys @ zs" "ys \<noteq> []"
  shows "p < length xs" "drop (p + length ys) xs = zs"
    "zs = [] \<Longrightarrow> p + length ys = length xs"
    "zs \<noteq> [] \<Longrightarrow> p + length ys < length xs \<and> xs ! (p + length ys) = hd zs"
proof -
  show p: "p < length xs" using assms by (metis append_is_Nil_conv drop_all not_le_imp_less)
  show d: "drop (p + length ys) xs = zs"
    using assms(1) by (metis add.commute append_eq_conv_conj drop_drop)
  have "length xs - p = length ys + length zs"
    using assms(1) by (metis length_append length_drop)
  then show "zs = [] \<Longrightarrow> p + length ys = length xs" using p by simp
  show "zs \<noteq> [] \<Longrightarrow> p + length ys < length xs \<and> xs ! (p + length ys) = hd zs"
    using d drop_eq_ConsD[of "p + length ys" xs "hd zs" "tl zs"] by simp
qed

lemma skip_whitespace_after:
  assumes "drop (pos b) (raw_json b) = zs" "pos b \<le> length (raw_json b)" "zs = [] \<or> \<not> isspace (hd zs)"
  shows "skip_whitespace b = Some b"
proof (cases "zs = []")
  case True
  then have "pos b = length (raw_json b)" using assms by simp
  then show ?thesis by (rule skip_whitespace_end)
next
  case False
  then have "pos b < length (raw_json b) \<and> raw_json b ! pos b = hd zs"
    using drop_eq_ConsD[of "pos b" "raw_json b" "hd zs" "tl zs"] assms by simp
  then show ?thesis using assms False by (simp add: skip_whitespace_nonspace)
qed

lemma literal_dispatch:
  assumes "pos b < length (raw_json b)" "raw_json b ! pos b = c"
    "c = CHR ''n'' \<or> c = CHR ''t'' \<or> c = CHR ''f''"
    "skip_whitespace b = Some b"
  shows "parse_json (Suc f) b h =
     catch_and_finish (Suc f) (length h)
       (if can_read b 4 \<and> compare_at b 4 ''null'' then
          literal_branch (length h) (\<lambda>i. i\<lparr>type := j_null\<rparr>) 4 b (h @ [Some zero_item])
        else if compare_at b 4 ''true'' then
          literal_branch (length h) (\<lambda>i. i\<lparr>type := j_bool, bool_val := True\<rparr>) 4 b (h @ [Some zero_item])
        else if compare_at b 5 ''false'' then
          literal_branch (length h) (\<lambda>i. i\<lparr>type := j_bool, bool_val := False\<rparr>) 5 b (h @ [Some zero_item])
        else (Inl (Throw InvalidJSON), b, h @ [Some zero_item]))"
  using assms
  by (auto simp add: parse_json.simps new_JSONItem_def char_at_in can_read_1 dquote_def isdigit_def)

lemma literal_finish:
  assumes "skip_whitespace (b\<lparr>pos := pos b + k\<rparr>) = Some (b\<lparr>pos := pos b + k\<rparr>)"
    "\<not> (depth b = 0 \<and> pos b + k \<noteq> length (raw_json b))"
  shows "catch_and_finish fuel (length h) (literal_branch (length h) g k b (h @ [Some zero_item]))
     = (Inr (length h), b\<lparr>pos := pos b + k\<rparr>, h @ [Some (g zero_item)])"
  using assms
  by (simp add: literal_branch_def assign_def deref_def catch_and_finish_def outcome_def)

lemma literal_returns:
  assumes raw: "drop (pos b) (raw_json b) = v @ post"
    and v: "v \<in> set literals"
    and post: "post = [] \<or> (depth b \<noteq> 0 \<and> \<not> isspace (hd post))"
  shows "parse_json (Suc f) b h =
     (Inr (length h), b\<lparr>pos := pos b + length v\<rparr>, h @ [Some (literal_item v)])"
proof -
  have ne: "v \<noteq> []" using v by (auto simp: literals_def)
  note av = after_value[OF raw ne]
  have first: "raw_json b ! pos b = hd v"
    using drop_eq_ConsD[of "pos b" "raw_json b" "hd v" "tl v @ post"] raw ne by simp
  have c: "hd v = CHR ''n'' \<or> hd v = CHR ''t'' \<or> hd v = CHR ''f''"
    using v by (auto simp: literals_def)
  have sk0: "skip_whitespace b = Some b"
    using av(1) first c by (intro skip_whitespace_nonspace) (auto simp: isspace_def)
  have le: "pos b + length v \<le> length (raw_json b)"
    using av by (cases "post = []") auto
  have sk1: "skip_whitespace (b\<lparr>pos := pos b + length v\<rparr>) = Some (b\<lparr>pos := pos b + length v\<rparr>)"
    by (rule skip_whitespace_after[where zs = post]) (use av le post in auto)
  have fin: "\<not> (depth b = 0 \<and> pos b + length v \<noteq> length (raw_json b))"
    using post av(3) by auto
  have cr: "v = ''null'' \<Longrightarrow> can_read b 4"
    using le av(1) by (auto simp: can_read_def)
  have cmp: "compare_at b 4 lit = (take 4 v = lit)" "compare_at b 5 lit = (take 5 (v @ post) = lit)" for lit
    using raw v by (auto simp: compare_at_def literals_def)
  note disp = literal_dispatch[OF av(1) first c sk0, of f h]
  from v consider "v = ''null''" | "v = ''true''" | "v = ''false''" by (auto simp: literals_def)
  then show ?thesis
  proof cases
    case 1
    have lv: "length v = 4" and li: "literal_item v = zero_item\<lparr>type := j_null\<rparr>"
      using 1 by (simp_all add: literal_item_def)
    have eq: "parse_json (Suc f) b h = catch_and_finish (Suc f) (length h)
        (literal_branch (length h) (\<lambda>i. i\<lparr>type := j_null\<rparr>) 4 b (h @ [Some zero_item]))"
      by (subst disp) (simp add: cr cmp 1)
    show ?thesis
      unfolding lv li eq by (rule literal_finish[OF sk1[unfolded lv] fin[unfolded lv]])
  next
    case 2
    have lv: "length v = 4" and li: "literal_item v = zero_item\<lparr>type := j_bool, bool_val := True\<rparr>"
      using 2 by (simp_all add: literal_item_def)
    have eq: "parse_json (Suc f) b h = catch_and_finish (Suc f) (length h)
        (literal_branch (length h) (\<lambda>i. i\<lparr>type := j_bool, bool_val := True\<rparr>) 4 b (h @ [Some zero_item]))"
      by (subst disp) (simp add: cmp 2)
    show ?thesis
      unfolding lv li eq by (rule literal_finish[OF sk1[unfolded lv] fin[unfolded lv]])
  next
    case 3
    have lv: "length v = 5" and li: "literal_item v = zero_item\<lparr>type := j_bool, bool_val := False\<rparr>"
      using 3 by (simp_all add: literal_item_def)
    have eq: "parse_json (Suc f) b h = catch_and_finish (Suc f) (length h)
        (literal_branch (length h) (\<lambda>i. i\<lparr>type := j_bool, bool_val := False\<rparr>) 5 b (h @ [Some zero_item]))"
      by (subst disp) (simp add: cmp 3)
    show ?thesis
      unfolding lv li eq by (rule literal_finish[OF sk1[unfolded lv] fin[unfolded lv]])
  qed
qed

subsection \<open>Numbers\<close>

text \<open>
  The number scanner is \<^verbatim>\<open>strtod\<close> on the rest of the input: it fails when \<^verbatim>\<open>strtod\<close>
  converts nothing and advances the cursor by what \<^verbatim>\<open>strtod\<close> consumed otherwise.
\<close>

lemma parse_number_eq:
  assumes "pos b \<le> length (raw_json b)"
  shows "parse_number b =
     (case strtod (c_string (drop (pos b) (raw_json b))) of
        (v, n) \<Rightarrow>
          if n = 0 then (Inl (Throw (BadNumber (pos b))), b)
          else (Inr v, b\<lparr>pos := pos b + n\<rparr>))"
  using assms by (simp add: parse_number_def c_string_def)

text \<open>\<^verbatim>\<open>strtod\<close> consumes no more than it is given.\<close>

lemma exponent_part_le: "snd (exponent_part m s) \<le> length s"
proof (cases s)
  case Nil
  then show ?thesis by (simp add: exponent_part_def)
next
  case (Cons c r)
  have l: "length (takeWhile isdigit t) \<le> length t" for t
    by (rule length_takeWhile_le)
  show ?thesis
  proof (cases r)
    case Nil
    then show ?thesis using Cons by (simp add: exponent_part_def)
  next
    case (Cons d r')
    then show ?thesis
      using \<open>s = c # r\<close> l[of r] l[of r']
      by (auto simp: exponent_part_def Let_def)
  qed
qed

lemma span_le:
  "length (takeWhile P s) + length (dropWhile P s) = length s"
  by (metis length_append takeWhile_dropWhile_id)

lemma mantissa_le:
  assumes "r1 = dropWhile P s"
    and "dot = (r1 \<noteq> [] \<and> hd r1 = CHR ''.'')"
    and "fp = (if dot then takeWhile P (tl r1) else [])"
    and "r2 = (if dot then dropWhile P (tl r1) else r1)"
  shows "length (takeWhile P s) + (if dot then 1 else 0) + length fp + length r2 = length s"
proof -
  have a: "length (takeWhile P s) + length r1 = length s"
    unfolding assms(1) by (rule span_le)
  show ?thesis
  proof (cases dot)
    case True
    then have "r1 \<noteq> []" using assms(2) by blast
    then have b: "length r1 = Suc (length (tl r1))" by (cases r1) simp_all
    have fp: "fp = takeWhile P (tl r1)" and r2: "r2 = dropWhile P (tl r1)"
      using True assms(3,4) by simp_all
    have c: "length fp + length r2 = length (tl r1)"
      unfolding fp r2 by (rule span_le)
    have "(if dot then 1 else 0) = (1::nat)" using True by simp
    then show ?thesis using a b c by linarith
  next
    case False
    then have "fp = []" "r2 = r1" "(if dot then 1 else 0) = (0::nat)"
      using assms(3,4) by simp_all
    then show ?thesis using a by simp
  qed
qed

lemma decimal_float_le: "decimal_float s = Some (v, n) \<Longrightarrow> n \<le> length s"
proof -
  assume a: "decimal_float s = Some (v, n)"
  let ?r1 = "dropWhile isdigit s"
  let ?dot = "?r1 \<noteq> [] \<and> hd ?r1 = CHR ''.''"
  let ?fp = "if ?dot then takeWhile isdigit (tl ?r1) else []"
  let ?r2 = "if ?dot then dropWhile isdigit (tl ?r1) else ?r1"
  have m: "length (takeWhile isdigit s) + (if ?dot then 1 else 0) + length ?fp + length ?r2 = length s"
    by (rule mantissa_le) simp_all
  have e: "snd (exponent_part (CHR ''e'') ?r2) \<le> length ?r2"
    by (rule exponent_part_le)
  from a have "n = length (takeWhile isdigit s) + (if ?dot then 1 else 0) + length ?fp
      + snd (exponent_part (CHR ''e'') ?r2)"
    by (auto simp: decimal_float_def Let_def split: if_splits prod.splits)
  then show ?thesis using m e by linarith
qed

lemma hex_float_le: "hex_float s = Some (v, n) \<Longrightarrow> n \<le> length s"
proof -
  assume a: "hex_float s = Some (v, n)"
  then obtain z x t where s: "s = z # x # t"
    by (cases s; cases "tl s") (auto simp: hex_float_def)
  let ?r1 = "dropWhile isxdigit t"
  let ?dot = "?r1 \<noteq> [] \<and> hd ?r1 = CHR ''.''"
  let ?fp = "if ?dot then takeWhile isxdigit (tl ?r1) else []"
  let ?r2 = "if ?dot then dropWhile isxdigit (tl ?r1) else ?r1"
  have m: "length (takeWhile isxdigit t) + (if ?dot then 1 else 0) + length ?fp + length ?r2 = length t"
    by (rule mantissa_le) simp_all
  have e: "snd (exponent_part (CHR ''p'') ?r2) \<le> length ?r2"
    by (rule exponent_part_le)
  from a s have "n = 2 + length (takeWhile isxdigit t) + (if ?dot then 1 else 0) + length ?fp
      + snd (exponent_part (CHR ''p'') ?r2)"
    by (auto simp: hex_float_def Let_def split: if_splits prod.splits)
  then show ?thesis using m e s by simp
qed

lemma inf_nan_le: "inf_nan neg s = Some (v, n) \<Longrightarrow> n \<le> length s"
proof -
  assume a: "inf_nan neg s = Some (v, n)"
  have t: "map tolower (take k s) = w \<Longrightarrow> length w = k \<Longrightarrow> k \<le> length s" for k w
    by (metis length_map length_take min.cobounded1 min_def nat_le_linear)
  have t8: "map tolower (take 8 s) = ''infinity'' \<Longrightarrow> 8 \<le> length s"
    using t[of 8 "''infinity''"] by simp
  have t3: "map tolower (take 3 s) = w \<Longrightarrow> length w = 3 \<Longrightarrow> 3 \<le> length s" for w
    using t[of 3 w] by simp
  let ?t = "drop 3 s"
  have n: "?t \<noteq> [] \<Longrightarrow> dropWhile isnchar (tl ?t) \<noteq> [] \<Longrightarrow> 3 \<le> length s \<Longrightarrow>
      3 + 1 + length (takeWhile isnchar (tl ?t)) + 1 \<le> length s"
  proof -
    assume 1: "?t \<noteq> []" and 2: "dropWhile isnchar (tl ?t) \<noteq> []" and 3: "3 \<le> length s"
    have "length ?t = Suc (length (tl ?t))" using 1 by (cases ?t) auto
    moreover have "length (takeWhile isnchar (tl ?t)) + length (dropWhile isnchar (tl ?t)) = length (tl ?t)"
      by (rule span_le)
    moreover have "0 < length (dropWhile isnchar (tl ?t))" using 2 by simp
    moreover have "length ?t = length s - 3" by simp
    ultimately show ?thesis using 3 by linarith
  qed
  show ?thesis
    using a t8 t3[of "''inf''"] t3[of "''nan''"] n
    by (auto simp: inf_nan_def Let_def split: if_splits)
qed

lemma strtod_consumes_le: "snd (strtod s) \<le> length s"
proof -
  define ws where "ws = length (takeWhile isspace s)"
  define s1 where "s1 = dropWhile isspace s"
  define neg where "neg = (s1 \<noteq> [] \<and> hd s1 = CHR ''-'')"
  define sg :: nat where "sg = (if s1 \<noteq> [] \<and> (hd s1 = CHR ''-'' \<or> hd s1 = CHR ''+'') then 1 else 0)"
  define s2 where "s2 = drop sg s1"
  have "ws + length s1 = length s"
    unfolding ws_def s1_def by (rule span_le)
  moreover have "sg \<le> length s1"
    unfolding sg_def by (cases s1) simp_all
  ultimately have l: "ws + sg + length s2 = length s"
    unfolding s2_def by simp
  have st: "strtod s =
     (case hex_float s2 of
        Some (v, n) \<Rightarrow> (to_double (if neg then - v else v), ws + sg + n)
      | None \<Rightarrow>
          (case decimal_float s2 of
             Some (v, n) \<Rightarrow> (to_double (if neg then - v else v), ws + sg + n)
           | None \<Rightarrow>
               (case inf_nan neg s2 of
                  Some (v, n) \<Rightarrow> (v, ws + sg + n)
                | None \<Rightarrow> (Finite 0, 0))))"
    unfolding strtod_def Let_def ws_def s1_def neg_def sg_def s2_def ..
  show ?thesis
  proof (cases "hex_float s2")
    case (Some p)
    obtain v n where p: "p = (v, n)" by (cases p)
    have "n \<le> length s2" using Some p by (auto dest: hex_float_le)
    then show ?thesis using l by (simp add: st Some p)
  next
    case hn: None
    show ?thesis
    proof (cases "decimal_float s2")
      case (Some p)
      obtain v n where p: "p = (v, n)" by (cases p)
      have "n \<le> length s2" using Some p by (auto dest: decimal_float_le)
      then show ?thesis using l by (simp add: st hn Some p)
    next
      case dn: None
      show ?thesis
      proof (cases "inf_nan neg s2")
        case (Some p)
        obtain v n where p: "p = (v, n)" by (cases p)
        have "n \<le> length s2" using Some p by (auto dest: inf_nan_le)
        then show ?thesis using l by (simp add: st hn dn Some p)
      next
        case None
        then show ?thesis by (simp add: st hn dn)
      qed
    qed
  qed
qed

text \<open>
  The dispatcher at a sign or a digit: the item becomes a number with the value
  converted, and is destroyed again when nothing was converted. At depth 0 the call
  then throws "trailing junk" unless only white space is left.
\<close>

lemma c_string_le: "length (c_string s) \<le> length s"
  unfolding c_string_def by (rule length_takeWhile_le)

lemma number_dispatch:
  assumes "pos b < length (raw_json b)"
    and "raw_json b ! pos b = CHR ''-'' \<or> raw_json b ! pos b = CHR ''+'' \<or> isdigit (raw_json b ! pos b)"
  shows "parse_json (Suc f) b h =
     catch_and_finish (Suc f) (length h) (number_branch (length h) b (h @ [Some zero_item]))"
proof -
  have ns: "\<not> isspace (raw_json b ! pos b)" "raw_json b ! pos b \<noteq> dquote"
    using assms(2) by (auto simp: isspace_def isdigit_def dquote_def)
  have sk: "skip_whitespace b = Some b"
    using assms(1) ns(1) by (rule skip_whitespace_nonspace)
  show ?thesis
    using assms ns(2)
    by (auto simp add: parse_json.simps new_JSONItem_def sk char_at_in can_read_1)
qed

lemma number_branch_eq:
  assumes "pos b \<le> length (raw_json b)"
    and "strtod (c_string (drop (pos b) (raw_json b))) = (v, n)"
  shows "number_branch (length h) b (h @ [Some zero_item]) =
     (if n = 0 then (Inl (Throw (BadNumber (pos b))), b, h @ [Some (zero_item\<lparr>type := j_number\<rparr>)])
      else (Inr (), b\<lparr>pos := pos b + n\<rparr>, h @ [Some (number_item v)]))"
  using assms
  by (simp add: number_branch_def assign_def deref_def parse_number_eq number_item_def)

lemma number_returns:
  assumes inb: "pos b < length (raw_json b)"
    and first: "raw_json b ! pos b = CHR ''-'' \<or> raw_json b ! pos b = CHR ''+'' \<or> isdigit (raw_json b ! pos b)"
    and st: "strtod (c_string (drop (pos b) (raw_json b))) = (v, n)"
  shows "parse_json (Suc f) b h =
     (if n = 0 then (Inl (Throw (BadNumber (pos b))), b, h @ [None])
      else
        let k = pos b + n + length (takeWhile isspace (drop (pos b + n) (raw_json b)))
        in if depth b = 0 \<and> k \<noteq> length (raw_json b)
           then (Inl (Throw TrailingJunk), b\<lparr>pos := k\<rparr>, h @ [Some (number_item v)])
           else (Inr (length h), b\<lparr>pos := k\<rparr>, h @ [Some (number_item v)]))"
proof -
  have le: "pos b \<le> length (raw_json b)" using inb by simp
  note d = number_dispatch[OF inb first, of f h]
  note nb = number_branch_eq[OF le st, of h]
  show ?thesis
  proof (cases "n = 0")
    case True
    have "destroy_json (Suc f) (Some (length h)) (h @ [Some (zero_item\<lparr>type := j_number\<rparr>)])
        = Inr ((h @ [Some (zero_item\<lparr>type := j_number\<rparr>)])[length h := None])"
      by (rule destroy_single[where it = "zero_item\<lparr>type := j_number\<rparr>"]) (simp_all add: zero_item_def)
    then show ?thesis
      unfolding d nb using True by (simp add: catch_and_finish_def)
  next
    case False
    have "n = snd (strtod (c_string (drop (pos b) (raw_json b))))" using st by simp
    then have "n \<le> length (drop (pos b) (raw_json b))"
      using strtod_consumes_le[of "c_string (drop (pos b) (raw_json b))"]
        c_string_le[of "drop (pos b) (raw_json b)"] by linarith
    then have n: "pos b + n \<le> length (raw_json b)" using le by simp
    have sk: "skip_whitespace (b\<lparr>pos := pos b + n\<rparr>)
        = Some (b\<lparr>pos := pos b + n + length (takeWhile isspace (drop (pos b + n) (raw_json b)))\<rparr>)"
      using skip_whitespace_eq[of "b\<lparr>pos := pos b + n\<rparr>"] n by simp
    show ?thesis
      unfolding d nb using False by (simp add: catch_and_finish_def sk Let_def)
  qed
qed

lemma number_parse:
  assumes "s \<noteq> []" "hd s = CHR ''-'' \<or> hd s = CHR ''+'' \<or> isdigit (hd s)"
    and "strtod (c_string s) = (v, n)"
  shows "parse s =
     (if n = 0 then (Inl (Throw (BadNumber 0)), fresh_buffer s, [None])
      else
        let k = n + length (takeWhile isspace (drop n s))
        in if k \<noteq> length s
           then (Inl (Throw TrailingJunk), (fresh_buffer s)\<lparr>pos := k\<rparr>, [Some (number_item v)])
           else (Inr 0, (fresh_buffer s)\<lparr>pos := k\<rparr>, [Some (number_item v)]))"
proof -
  let ?b = "fresh_buffer s"
  have 1: "pos ?b < length (raw_json ?b)" using assms(1) by (simp add: fresh_buffer_def)
  have 2: "raw_json ?b ! pos ?b = CHR ''-'' \<or> raw_json ?b ! pos ?b = CHR ''+'' \<or> isdigit (raw_json ?b ! pos ?b)"
    using assms(1,2) by (simp add: fresh_buffer_def hd_conv_nth)
  have 3: "strtod (c_string (drop (pos ?b) (raw_json ?b))) = (v, n)"
    using assms(3) by (simp add: fresh_buffer_def)
  show ?thesis
    unfolding parse_def using number_returns[OF 1 2 3, of "length s" "[]"]
    by (simp add: fresh_buffer_def Let_def)
qed

text \<open>An exponent too large for a \<^verbatim>\<open>double\<close>, and the number \<^verbatim>\<open>1\<close> before a comma.\<close>

lemma overflow_bound: "DBL_OVERFLOW \<le> 10 ^ 999"
proof -
  have "DBL_OVERFLOW \<le> 2 ^ 1024"
    unfolding DBL_OVERFLOW_def by simp
  also have "(2::rat) ^ 1024 \<le> 2 ^ (3 * 999)"
    by (rule power_increasing) simp_all
  also have "\<dots> = (2 ^ 3) ^ 999"
    by (rule power_mult)
  also have "\<dots> \<le> (10::rat) ^ 999"
    by (rule power_mono) simp_all
  finally show ?thesis .
qed

lemma strtod_overflow: "strtod ''1e999'' = (Infinity False, 5)"
proof -
  have e: "exponent_part (CHR ''e'') ''e999'' = (999, 4)"
    by code_simp
  have d: "decimal_float ''1e999'' = Some (scale 1 10 999, 5)"
    by (simp add: decimal_float_def isdigit_def e dec_value_def digit_val_def Let_def)
  have h: "hex_float ''1e999'' = None"
    by code_simp
  have st: "strtod ''1e999'' = (to_double (scale 1 10 999), 5)"
    by (simp add: strtod_def isspace_def h d Let_def)
  have s: "scale 1 10 999 = 10 ^ 999"
    unfolding scale_def
    by (simp only: of_nat_numeral of_nat_1 mult_1 nat_numeral if_True zero_le_numeral)
  have p: "(0::rat) \<le> 10 ^ 999" by (rule zero_le_power) simp
  have "to_double (scale 1 10 999) = Infinity False"
    unfolding to_double_def s using overflow_bound p
    by (simp only: abs_of_nonneg if_True not_less[symmetric] simp_thms)
  then show ?thesis unfolding st by simp
qed

lemma strtod_one_comma: "strtod (c_string (CHR ''1'' # CHR '','' # rest)) = (Finite 1, 1)"
  by (simp add: c_string_def strtod_def isspace_def decimal_float_def hex_float_def isdigit_def
      exponent_part_def tolower_def scale_def dec_value_def digit_val_def to_double_def
      DBL_OVERFLOW_def Let_def)

lemma number_one_returns:
  assumes raw: "drop (pos b) (raw_json b) = CHR ''1'' # CHR '','' # rest"
    and d: "depth b \<noteq> 0"
  shows "parse_json (Suc f) b h =
     (Inr (length h), b\<lparr>pos := pos b + 1\<rparr>, h @ [Some (number_item (Finite 1))])"
proof -
  note d0 = drop_eq_ConsD[OF raw]
  note d1 = drop_eq_ConsD[of "Suc (pos b)" "raw_json b" "CHR '',''" rest]
  have c: "pos b < length (raw_json b)" "raw_json b ! pos b = CHR ''1''"
    "Suc (pos b) < length (raw_json b)" "raw_json b ! Suc (pos b) = CHR '',''"
    using d0 d1 by simp_all
  have sk: "skip_whitespace b = Some b"
    using c by (intro skip_whitespace_nonspace) (simp_all add: isspace_def)
  have sk1: "skip_whitespace (b\<lparr>pos := Suc (pos b)\<rparr>) = Some (b\<lparr>pos := Suc (pos b)\<rparr>)"
    using c by (intro skip_whitespace_nonspace) simp_all
  have pn: "parse_number b = (Inr (Finite 1), b\<lparr>pos := Suc (pos b)\<rparr>)"
    using c strtod_one_comma[of rest] raw
    by (simp add: parse_number_def c_string_def)
  show ?thesis
    using c sk sk1 pn d
    by (simp add: parse_json.simps new_JSONItem_def char_at_in can_read_1 number_branch_def
        dquote_def isdigit_def assign_def deref_def catch_and_finish_def number_item_def)
qed

subsection \<open>The depth counter against the limit\<close>

lemma depth_succ:
  fixes d :: "32 word"
  assumes "unat d + 1 \<le> 1000"
  shows "\<not> PARSER_NESTING_LIMIT < d + 1" "unat (d + 1) = unat d + 1" "d + 1 \<noteq> 0" "d + 1 - 1 = d"
proof -
  show u: "unat (d + 1) = unat d + 1"
    using assms by (simp add: unat_word_ariths)
  show "\<not> PARSER_NESTING_LIMIT < d + 1"
    using u assms by (simp add: word_less_nat_alt PARSER_NESTING_LIMIT_def)
  show "d + 1 \<noteq> 0" using u by (metis Suc_eq_plus1 nat.distinct(1) unat_0)
  show "d + 1 - 1 = d" by simp
qed

lemma depth_limit:
  fixes d :: "32 word"
  assumes "unat d = 1000"
  shows "PARSER_NESTING_LIMIT < d + 1"
proof -
  have "unat (d + 1) = 1001" using assms by (simp add: unat_word_ariths)
  then show ?thesis by (simp add: word_less_nat_alt PARSER_NESTING_LIMIT_def)
qed

subsection \<open>Nested inputs\<close>

text \<open>
  By induction on the levels: a literal inside at most 1000 levels is parsed into the
  chain of items \<open>nest_items\<close>, with the cursor behind the text and the depth as before;
  an error thrown below a sequence of openers reaches the caller, every container item
  on the way destroyed.
\<close>

lemma opener_nonempty: "opener l \<noteq> []"
  by (cases l) auto

lemma nest_nonempty: "v \<noteq> [] \<Longrightarrow> nest ls v \<noteq> []"
  by (cases ls) (auto simp: opener_nonempty)

lemma hd_nest:
  assumes "v \<in> set literals"
  shows "\<not> isspace (hd (nest ls v)) \<and> hd (nest ls v) \<noteq> CHR '']'' \<and> nest ls v \<noteq> []"
proof (cases ls)
  case Nil
  then show ?thesis using assms by (auto simp: literals_def isspace_def)
next
  case (Cons l ls')
  then show ?thesis by (cases l) (auto simp: isspace_def)
qed

lemma nest_items_rename:
  "(nest_items a nm ls leaf)[0 := Some (the (nest_items a nm ls leaf ! 0)\<lparr>name := nm'\<rparr>)] = nest_items a nm' ls leaf"
  by (cases ls) auto

lemma nest_items_first:
  "\<exists>it. nest_items a nm ls leaf ! 0 = Some it" "nest_items a nm ls leaf \<noteq> []"
  by (cases ls; simp)+

lemma plain_ball: "plain nm \<Longrightarrow> \<forall>c\<in>set nm. c \<noteq> dquote \<and> c \<noteq> backslash"
  by (simp add: plain_def list_all_iff)

lemma nest_returns:
  assumes "drop (pos b) (raw_json b) = nest ls v @ post"
    and "v \<in> set literals" and "plain_levels ls"
    and "unat (depth b) + length ls \<le> 1000" and "length ls \<le> f"
    and "post = [] \<or> (depth b \<noteq> 0 \<and> \<not> isspace (hd post))"
  shows "parse_json (Suc f) b h =
     (Inr (length h), b\<lparr>pos := pos b + length (nest ls v)\<rparr>,
      h @ nest_items (length h) [] ls (literal_item v))"
  using assms
proof (induction ls arbitrary: b h f post)
  case Nil
  then show ?case
    using literal_returns[of b v post f h] by (simp add: literal_item_def zero_item_def)
next
  case (Cons l ls)
  note v = \<open>v \<in> set literals\<close>
  from Cons.prems(5) obtain f' where f: "f = Suc f'" "length ls \<le> f'"
    by (cases f) auto
  from Cons.prems(3) have pl: "plain (member l)" "plain_levels ls"
    by (simp_all add: plain_levels_def)
  from Cons.prems(4) have d: "unat (depth b) + 1 \<le> 1000"
    "unat (depth b + 1) + length ls \<le> 1000"
    using depth_succ(2)[of "depth b"] by auto
  note ds = depth_succ[OF d(1)]
  note hn = hd_nest[OF v, of ls]
  let ?n = "length (nest ls v)"
  let ?h1 = "h @ [Some (zero_item\<lparr>type := kind l\<rparr>)]"
  let ?items = "nest_items (Suc (length h)) [] ls (literal_item v)"
  have post': "closer l @ post = [] \<or> (depth b + 1 \<noteq> 0 \<and> \<not> isspace (hd (closer l @ post)))"
    using ds(3) by (cases l) auto
  show ?case
  proof (cases l)
    case ArrayLevel
    let ?b1 = "b\<lparr>pos := pos b + 1, depth := depth b + 1\<rparr>"
    from Cons.prems(1) ArrayLevel
    have raw: "drop (pos b) (raw_json b) = CHR ''['' # nest ls v @ CHR '']'' # post" by simp
    note r0 = drop_eq_ConsD[OF raw]
    have raw1: "drop (pos ?b1) (raw_json ?b1) = nest ls v @ (CHR '']'' # post)"
      using r0 by simp
    have inner: "parse_json (Suc f') ?b1 ?h1 =
        (Inr (length ?h1), ?b1\<lparr>pos := pos ?b1 + ?n\<rparr>, ?h1 @ nest_items (length ?h1) [] ls (literal_item v))"
      using Cons.IH[OF raw1 v pl(2) _ f(2), of ?h1] d(2) post' ArrayLevel by simp
    have av: "Suc (pos b) < length (raw_json b)" "raw_json b ! Suc (pos b) = hd (nest ls v)"
      "Suc (pos b) + ?n < length (raw_json b)" "raw_json b ! (Suc (pos b) + ?n) = CHR '']''"
      "drop (Suc (Suc (pos b) + ?n)) (raw_json b) = post"
      using after_value[of "Suc (pos b)" "raw_json b" "nest ls v" "CHR '']'' # post"] r0 hn
        drop_eq_ConsD[of "Suc (pos b)" "raw_json b" "hd (nest ls v)" "tl (nest ls v) @ CHR '']'' # post"]
        drop_eq_ConsD[of "Suc (pos b) + ?n" "raw_json b" "CHR '']''" post]
      by auto
    let ?b4 = "b\<lparr>pos := pos b + length (nest (l # ls) v)\<rparr>"
    have b4: "?b1\<lparr>pos := pos ?b1 + ?n\<rparr>\<lparr>pos := pos (?b1\<lparr>pos := pos ?b1 + ?n\<rparr>) + 1,
                depth := depth (?b1\<lparr>pos := pos ?b1 + ?n\<rparr>) - 1\<rparr> = ?b4"
      using ArrayLevel by simp
    have p4: "pos ?b4 = Suc (Suc (pos b) + ?n)" using ArrayLevel by simp
    have le: "pos ?b4 \<le> length (raw_json ?b4)" unfolding p4 using av(3) by simp
    have d4: "drop (pos ?b4) (raw_json ?b4) = post" unfolding p4 using av(5) by simp
    have sk: "skip_whitespace ?b4 = Some ?b4"
      by (rule skip_whitespace_after[OF d4 le]) (use Cons.prems(6) in auto)
    have fin: "\<not> (depth ?b4 = 0 \<and> pos ?b4 \<noteq> length (raw_json ?b4))"
    proof (cases "post = []")
      case True
      then have "pos ?b4 = length (raw_json ?b4)" using d4 le by simp
      then show ?thesis by simp
    next
      case False
      then show ?thesis using Cons.prems(6) by simp
    qed
    have "parse_json (Suc f) b h =
      (Inr (length h), ?b4,
       (?h1 @ nest_items (length ?h1) [] ls (literal_item v))
         [length h := Some (zero_item\<lparr>type := j_array, child := Some (length ?h1)\<rparr>)])"
      unfolding f(1)
      apply (rule array_wrap_returns[where ?b2.0 = "?b1\<lparr>pos := pos ?b1 + ?n\<rparr>"])
      using r0 ds(1) av hn inner ArrayLevel sk fin b4
      by (simp_all add: nth_append)
    then show ?thesis
      using ArrayLevel by (simp add: list_update_append zero_item_def)
  next
    case (ObjectLevel nm)
    let ?b1 = "b\<lparr>depth := depth b + 1, pos := pos b + length nm + 4\<rparr>"
    let ?c = "hd (nest ls v)"
    let ?rest = "tl (nest ls v) @ CHR ''}'' # post"
    from Cons.prems(1) ObjectLevel hn
    have raw: "drop (pos b) (raw_json b) = CHR ''{'' # dquote # nm @ dquote # CHR '':'' # ?c # ?rest"
      by simp
    have raw0: "drop (pos b) (raw_json b) = (CHR ''{'' # dquote # nm @ [dquote, CHR '':'']) @ (nest ls v @ CHR ''}'' # post)"
      using Cons.prems(1) ObjectLevel by simp
    have raw1: "drop (pos ?b1) (raw_json ?b1) = nest ls v @ (CHR ''}'' # post)"
    proof -
      have "pos b + length (CHR ''{'' # dquote # nm @ [dquote, CHR '':'']) = pos b + length nm + 4"
        by simp
      then show ?thesis using after_value(2)[OF raw0] by (simp add: numeral_eq_Suc)
    qed
    have inner: "parse_json (Suc f') ?b1 ?h1 =
        (Inr (length ?h1), ?b1\<lparr>pos := pos ?b1 + ?n\<rparr>, ?h1 @ nest_items (length ?h1) [] ls (literal_item v))"
      using Cons.IH[OF raw1 v pl(2) _ f(2), of ?h1] d(2) post' ObjectLevel by simp
    have av: "pos ?b1 + ?n < length (raw_json b)" "raw_json b ! (pos ?b1 + ?n) = CHR ''}''"
      "drop (Suc (pos ?b1 + ?n)) (raw_json b) = post"
      using after_value[of "pos ?b1" "raw_json b" "nest ls v" "CHR ''}'' # post"] raw1 hn
        drop_eq_ConsD[of "pos ?b1 + ?n" "raw_json b" "CHR ''}''" post]
      by auto
    let ?b4 = "b\<lparr>pos := pos b + length (nest (l # ls) v)\<rparr>"
    have b4: "?b1\<lparr>pos := pos ?b1 + ?n\<rparr>\<lparr>pos := pos (?b1\<lparr>pos := pos ?b1 + ?n\<rparr>) + 1,
                depth := depth (?b1\<lparr>pos := pos ?b1 + ?n\<rparr>) - 1\<rparr> = ?b4"
      using ObjectLevel by simp
    have p4: "pos ?b4 = Suc (pos ?b1 + ?n)" using ObjectLevel by simp
    have le: "pos ?b4 \<le> length (raw_json ?b4)" unfolding p4 using av(1) by simp
    have d4: "drop (pos ?b4) (raw_json ?b4) = post" unfolding p4 using av(3) by simp
    have sk: "skip_whitespace ?b4 = Some ?b4"
      by (rule skip_whitespace_after[OF d4 le]) (use Cons.prems(6) in auto)
    have fin: "\<not> (depth ?b4 = 0 \<and> pos ?b4 \<noteq> length (raw_json ?b4))"
    proof (cases "post = []")
      case True
      then have "pos ?b4 = length (raw_json ?b4)" using d4 le by simp
      then show ?thesis by simp
    next
      case False
      then show ?thesis using Cons.prems(6) by simp
    qed
    obtain it where it: "?items ! 0 = Some it" "?items \<noteq> []"
      using nest_items_first[of "Suc (length h)" "[]" ls "literal_item v"] by auto
    have "parse_json (Suc f) b h =
      (Inr (length h), ?b4,
       (?h1 @ ?items)
         [length ?h1 := Some (it\<lparr>name := nm\<rparr>),
          length h := Some (zero_item\<lparr>child := Some (length ?h1)\<rparr>)])"
    proof -
      let ?b2 = "?b1\<lparr>pos := pos ?b1 + ?n\<rparr>"
      let ?h2 = "?h1 @ ?items"
      have inner': "parse_json (Suc f') ?b1 (h @ [Some zero_item]) = (Inr (length ?h1), ?b2, ?h2)"
        using inner ObjectLevel by (simp add: zero_item_def)
      have c: "\<not> isspace ?c" using hn by simp
      have nmp: "\<forall>c\<in>set nm. c \<noteq> dquote \<and> c \<noteq> backslash"
        using plain_ball[OF pl(1)] ObjectLevel by simp
      have b2: "pos ?b2 < length (raw_json ?b2)" "raw_json ?b2 ! pos ?b2 = CHR ''}''"
        using av by simp_all
      have fr: "length h < length ?h2" "?h2 ! length h = Some zero_item"
        using ObjectLevel by (simp_all add: nth_append zero_item_def)
      have p: "length ?h1 < length ?h2" "?h2 ! length ?h1 = Some it" "length ?h1 \<noteq> length h"
        using it by (simp_all add: nth_append)
      have sk': "skip_whitespace (?b2\<lparr>pos := pos ?b2 + 1, depth := depth ?b2 - 1\<rparr>) = Some ?b4"
        unfolding b4 by (rule sk)
      show ?thesis
        unfolding f(1)
        by (rule object_wrap_returns[OF raw nmp c ds(1) inner' b2 fr p sk' fin])
    qed
    moreover have "?items[0 := Some (it\<lparr>name := nm\<rparr>)] = nest_items (Suc (length h)) nm ls (literal_item v)"
      using nest_items_rename[of "Suc (length h)" "[]" ls "literal_item v" nm] it by simp
    ultimately show ?thesis
      using ObjectLevel by (simp add: list_update_append zero_item_def)
  qed
qed

lemma hd_openers:
  assumes "\<not> isspace c" "c \<noteq> CHR '']''"
  shows "\<not> isspace (hd (openers ls @ c # rest)) \<and> hd (openers ls @ c # rest) \<noteq> CHR '']''"
proof (cases ls)
  case Nil
  then show ?thesis using assms by (simp add: openers_def)
next
  case (Cons l ls')
  then show ?thesis by (cases l) (simp_all add: openers_def)
qed

lemma descent_throws:
  assumes "drop (pos b) (raw_json b) = openers ls @ c # rest"
    and "plain_levels ls"
    and "unat (depth b) + length ls \<le> 1000"
    and "\<not> isspace c" "c \<noteq> CHR '']''"
    and "length ls \<le> f"
    and "\<And>f' h'. parse_json (Suc f')
            (b\<lparr>depth := depth b + of_nat (length ls), pos := pos b + length (openers ls)\<rparr>) h'
          = (Inl (Throw e), b', h' @ junk)"
  shows "parse_json (Suc f) b h = (Inl (Throw e), b', h @ replicate (length ls) None @ junk)"
  using assms(1,2,3,6,7)
proof (induction ls arbitrary: b h f)
  case Nil
  then show ?case by (simp add: openers_def)
next
  case (Cons l ls)
  note c = \<open>\<not> isspace c\<close> \<open>c \<noteq> CHR '']''\<close>
  from Cons.prems(4) obtain f' where f: "f = Suc f'" "length ls \<le> f'"
    by (cases f) auto
  from Cons.prems(2) have pl: "plain (member l)" "plain_levels ls"
    by (simp_all add: plain_levels_def)
  from Cons.prems(3) have d: "unat (depth b) + 1 \<le> 1000"
    "unat (depth b + 1) + length ls \<le> 1000"
    using depth_succ(2)[of "depth b"] by auto
  note ds = depth_succ[OF d(1)]
  note ho = hd_openers[OF c, of ls rest]
  let ?t = "openers ls @ c # rest"
  let ?h1 = "h @ [Some (zero_item\<lparr>type := kind l\<rparr>)]"
  let ?h2 = "?h1 @ replicate (length ls) None @ junk"
  have raw0: "drop (pos b) (raw_json b) = opener l @ ?t"
    using Cons.prems(1) by (simp add: openers_def)
  have fr: "length h < length ?h2" "?h2 ! length h = Some (zero_item\<lparr>type := kind l\<rparr>)"
    by (simp_all add: nth_append)
  have res: "?h2[length h := None] = h @ replicate (length (l # ls)) None @ junk"
    by (simp add: list_update_append)
  show ?case
  proof (cases l)
    case ArrayLevel
    let ?b1 = "b\<lparr>pos := pos b + 1, depth := depth b + 1\<rparr>"
    have raw: "drop (pos b) (raw_json b) = CHR ''['' # ?t" using raw0 ArrayLevel by simp
    note r0 = drop_eq_ConsD[OF raw]
    have raw1: "drop (pos ?b1) (raw_json ?b1) = ?t" using r0 by simp
    have bi: "?b1\<lparr>depth := depth ?b1 + of_nat (length ls), pos := pos ?b1 + length (openers ls)\<rparr>
        = b\<lparr>depth := depth b + of_nat (length (l # ls)), pos := pos b + length (openers (l # ls))\<rparr>"
      using ArrayLevel by (simp add: openers_def add.commute add.left_commute)
    have inner: "parse_json (Suc f') ?b1 ?h1 = (Inl (Throw e), b', ?h2)"
      by (rule Cons.IH[OF raw1 pl(2) _ f(2)]) (use d(2) Cons.prems(5) bi in simp_all)
    have nx: "Suc (pos b) < length (raw_json b)" "raw_json b ! Suc (pos b) = hd ?t"
      using drop_eq_ConsD[of "Suc (pos b)" "raw_json b" "hd ?t" "tl ?t"] r0 by simp_all
    have "parse_json (Suc (Suc f')) b h = (Inl (Throw e), b', ?h2[length h := None])"
      apply (rule array_wrap_throws[where ?h2.0 = ?h2])
      using r0 ds(1) nx ho inner fr ArrayLevel by simp_all
    then show ?thesis unfolding f(1) res .
  next
    case (ObjectLevel nm)
    let ?b1 = "b\<lparr>depth := depth b + 1, pos := pos b + length nm + 4\<rparr>"
    have raw: "drop (pos b) (raw_json b) = CHR ''{'' # dquote # nm @ dquote # CHR '':'' # hd ?t # tl ?t"
      using raw0 ObjectLevel by simp
    have raw0': "drop (pos b) (raw_json b) = (CHR ''{'' # dquote # nm @ [dquote, CHR '':'']) @ ?t"
      using raw0 ObjectLevel by simp
    have raw1: "drop (pos ?b1) (raw_json ?b1) = ?t"
    proof -
      have "pos b + length (CHR ''{'' # dquote # nm @ [dquote, CHR '':'']) = pos b + length nm + 4"
        by simp
      then show ?thesis using after_value(2)[OF raw0'] by (simp add: numeral_eq_Suc)
    qed
    have bi: "?b1\<lparr>depth := depth ?b1 + of_nat (length ls), pos := pos ?b1 + length (openers ls)\<rparr>
        = b\<lparr>depth := depth b + of_nat (length (l # ls)), pos := pos b + length (openers (l # ls))\<rparr>"
      using ObjectLevel by (simp add: openers_def add.commute add.left_commute)
    have inner: "parse_json (Suc f') ?b1 ?h1 = (Inl (Throw e), b', ?h2)"
      by (rule Cons.IH[OF raw1 pl(2) _ f(2)]) (use d(2) Cons.prems(5) bi in simp_all)
    have inner': "parse_json (Suc f') ?b1 (h @ [Some zero_item]) = (Inl (Throw e), b', ?h2)"
      using inner ObjectLevel by (simp add: zero_item_def)
    have nmp: "\<forall>c\<in>set nm. c \<noteq> dquote \<and> c \<noteq> backslash"
      using plain_ball[OF pl(1)] ObjectLevel by simp
    have c': "\<not> isspace (hd ?t)" using ho by simp
    have fr': "?h2 ! length h = Some zero_item"
      using fr(2) ObjectLevel by (simp add: zero_item_def)
    have "parse_json (Suc (Suc f')) b h = (Inl (Throw e), b', ?h2[length h := None])"
      by (rule object_wrap_throws[OF raw nmp c' ds(1) inner' fr(1) fr'])
    then show ?thesis unfolding f(1) res .
  qed
qed

subsection \<open>Top-level parses of nested inputs\<close>

lemma nest_openers: "nest ls v = openers ls @ v @ concat (map closer (rev ls))"
  by (induction ls) (simp_all add: openers_def)

lemma length_openers_le: "length ls \<le> length (openers ls)"
proof (induction ls)
  case Nil
  then show ?case by (simp add: openers_def)
next
  case (Cons l ls)
  then show ?case by (cases l) (simp_all add: openers_def)
qed

lemma openers_snoc: "openers (ls @ [l]) = openers ls @ opener l"
  by (simp add: openers_def)

lemma openers_replicate: "openers (replicate n ArrayLevel) = replicate n (CHR ''['')"
  by (induction n) (simp_all add: openers_def)

lemma nest_parse_returns:
  assumes "plain_levels ls" "v \<in> set literals" "length ls \<le> 1000"
  shows "parse (nest ls v) =
     (Inr 0, \<lparr>raw_json = nest ls v, depth = 0, pos = length (nest ls v)\<rparr>,
      nest_items 0 [] ls (literal_item v))"
proof -
  let ?b = "fresh_buffer (nest ls v)"
  have raw: "drop (pos ?b) (raw_json ?b) = nest ls v @ []"
    by (simp add: fresh_buffer_def)
  have fuel: "length ls \<le> length (nest ls v)"
    using length_openers_le[of ls] by (simp add: nest_openers)
  have "parse_json (Suc (length (nest ls v))) ?b [] =
     (Inr (length ([]::heap)), ?b\<lparr>pos := pos ?b + length (nest ls v)\<rparr>,
      [] @ nest_items (length ([]::heap)) [] ls (literal_item v))"
    by (rule nest_returns[OF raw assms(2,1) _ fuel]) (use assms(3) in \<open>simp_all add: fresh_buffer_def\<close>)
  then show ?thesis
    by (simp add: parse_def fresh_buffer_def)
qed

lemma limit_parse_throws:
  assumes "plain_levels ls" "length ls = 1001"
  shows "parse (openers ls @ rest) =
     (Inl (Throw (NestingLimitExceeded (kind (last ls)) (length (openers (butlast ls)) + 1))),
      \<lparr>raw_json = openers ls @ rest, depth = 1001, pos = length (openers (butlast ls)) + 1\<rparr>,
      replicate (length ls) None)"
proof -
  let ?ls0 = "butlast ls" and ?l = "last ls"
  let ?s = "openers ls @ rest"
  let ?b = "fresh_buffer ?s"
  have ne: "ls \<noteq> []" using assms(2) by auto
  then have ls: "ls = ?ls0 @ [?l]" by simp
  have len0: "length ?ls0 = 1000" using assms(2) by simp
  have pl0: "plain_levels ?ls0"
    using assms(1) ls by (metis list_all_append plain_levels_def)
  obtain c t where op: "opener ?l = c # t" "c = CHR ''['' \<or> c = CHR ''{''"
    by (cases ?l) auto
  have s: "?s = openers ?ls0 @ c # (t @ rest)"
    using ls op openers_snoc[of ?ls0 ?l] by (metis append.assoc append_Cons)
  have raw: "drop (pos ?b) (raw_json ?b) = openers ?ls0 @ c # (t @ rest)"
    using s by (simp add: fresh_buffer_def)
  have c: "\<not> isspace c" "c \<noteq> CHR '']''" using op(2) by auto
  have fuel: "length ?ls0 \<le> length ?s"
    using length_openers_le[of ?ls0] s by simp
  let ?bi = "?b\<lparr>depth := depth ?b + of_nat (length ?ls0), pos := pos ?b + length (openers ?ls0)\<rparr>"
  let ?e = "NestingLimitExceeded (kind ?l) (length (openers ?ls0) + 1)"
  let ?b' = "\<lparr>raw_json = ?s, depth = 1001, pos = length (openers ?ls0) + 1\<rparr>"
  have at: "pos ?bi < length (raw_json ?bi)" "raw_json ?bi ! pos ?bi = c"
    using s by (simp_all add: fresh_buffer_def nth_append)
  have dl: "PARSER_NESTING_LIMIT < depth ?bi + 1"
    by (rule depth_limit) (simp add: fresh_buffer_def assms(2))
  have b': "?bi\<lparr>pos := pos ?bi + 1, depth := depth ?bi + 1\<rparr> = ?b'"
    by (simp add: fresh_buffer_def assms(2))
  have k: "kind ?l = (if c = CHR ''['' then j_array else j_object)"
    using op by (cases ?l) auto
  have inner: "parse_json (Suc f') ?bi h' = (Inl (Throw ?e), ?b', h' @ [None])" for f' h'
  proof (cases "c = CHR ''[''")
    case True
    then show ?thesis
      using array_entry_limit[OF at(1) _ dl, of f' h'] at(2) b' k by (simp add: fresh_buffer_def)
  next
    case False
    then have "c = CHR ''{''" using op(2) by simp
    then show ?thesis
      using object_entry_limit[OF at(1) _ dl, of f' h'] at(2) b' k by (simp add: fresh_buffer_def)
  qed
  have "parse_json (Suc (length ?s)) ?b [] =
      (Inl (Throw ?e), ?b', [] @ replicate (length ?ls0) None @ [None])"
    by (rule descent_throws[OF raw pl0 _ c fuel inner]) (simp add: fresh_buffer_def assms(2))
  moreover have "replicate (length ?ls0) None @ [None] = replicate (length ls) (None :: JSONItem option)"
  proof -
    have "length ls = Suc (length ?ls0)" using ne by simp
    then show ?thesis by (simp only: replicate_append_same replicate_Suc)
  qed
  ultimately show ?thesis
    by (simp add: parse_def del: length_butlast)
qed

lemma nest_arrays: "nest (replicate n ArrayLevel) v = replicate n (CHR ''['') @ v @ replicate n (CHR '']'')"
  by (induction n) (simp_all add: replicate_append_same)

lemma max_nesting_opens:
  "max_nesting_from d (replicate n (CHR ''['') @ s) = max_nesting_from (d + n) s"
  by (induction n arbitrary: d) simp_all

lemma max_nesting_closes: "max_nesting_from d (replicate n (CHR '']'')) = d"
  by (induction n arbitrary: d) simp_all

lemma plain_levels_arrays: "plain_levels (replicate n ArrayLevel)"
  by (simp add: plain_levels_def plain_def list_all_iff)

lemma butlast_replicate_Suc: "butlast (replicate (Suc n) x) = replicate n x"
  by (metis butlast_snoc replicate_Suc replicate_append_same)

subsection \<open>An empty array or a string before the limit\<close>

text \<open>
  The deepest nesting of the texts used below, and their parses: an array whose first
  element is empty is returned after that element; an escaped quote stops the parse
  wherever it stands; a second element is parsed at the depth of the first.
\<close>

lemma max_nesting_closes_append:
  "max_nesting_from d (replicate n (CHR '']'') @ s) = max d (max_nesting_from (d - n) s)"
proof (induction n arbitrary: d)
  case 0
  have "d \<le> max_nesting_from d s" for d
  proof (induction s arbitrary: d)
    case Nil
    then show ?case by simp
  next
    case (Cons c cs)
    show ?case using Cons[of d] Cons[of "Suc d"] by (auto simp: max_def)
  qed
  then show ?case by (simp add: max_def)
next
  case (Suc n)
  then show ?case by (simp add: max.assoc[symmetric])
qed

lemma hidden_nesting: "max_nesting hidden_nesting_text = 1001"
proof -
  have "max_nesting_from (Suc 0) (replicate 1000 (CHR ''['') @ ''null'' @ replicate 1000 (CHR '']'') @ '']'')
      = 1001"
    unfolding max_nesting_opens
    by (simp add: max_nesting_closes_append)
  then show ?thesis
    by (simp add: max_nesting_def hidden_nesting_text_def nest_arrays)
qed

lemma empty_first_element:
  assumes "\<not> isspace c"
  shows "parse (''[[]'' @ c # rest) =
     (Inr 0, \<lparr>raw_json = ''[[]'' @ c # rest, depth = 1, pos = 3\<rparr>,
      [Some (zero_item\<lparr>type := j_array, child := Some 1\<rparr>), Some (zero_item\<lparr>type := j_array\<rparr>)])"
  using assms
  by (simp add: parse_def fresh_buffer_def parse_json.simps new_JSONItem_def
      skip_whitespace_nonspace char_at_def at_index_def can_read_def dquote_def
      container_branch_def assign_def deref_def parse_array_def catch_and_finish_def
      link_item_def zero_item_def PARSER_NESTING_LIMIT_def)

lemma escaped_quote_throws:
  assumes raw: "drop (pos b) (raw_json b) = escaped_quote_text @ post"
  shows "parse_json (Suc f) b h =
     (Inl (Throw (UnknownEscape (pos b + 2))), b\<lparr>pos := pos b + 2\<rparr>, h @ [None])"
proof -
  from raw have r0: "drop (pos b) (raw_json b)
      = dquote # CHR ''a'' # backslash # dquote # (''b'' @ dquote # post)"
    by (simp add: escaped_quote_text_def)
  note d0 = drop_eq_ConsD[OF r0]
  note d1 = drop_eq_ConsD[of "Suc (pos b)" "raw_json b" "CHR ''a''" "backslash # dquote # (''b'' @ dquote # post)"]
  note d2 = drop_eq_ConsD[of "Suc (Suc (pos b))" "raw_json b" backslash "dquote # (''b'' @ dquote # post)"]
  note d3 = drop_eq_ConsD[of "Suc (Suc (Suc (pos b)))" "raw_json b" dquote "''b'' @ dquote # post"]
  have c: "pos b < length (raw_json b)" "raw_json b ! pos b = dquote"
    "Suc (pos b) < length (raw_json b)" "raw_json b ! Suc (pos b) = CHR ''a''"
    "Suc (Suc (pos b)) < length (raw_json b)" "raw_json b ! Suc (Suc (pos b)) = backslash"
    "Suc (Suc (Suc (pos b))) < length (raw_json b)" "raw_json b ! Suc (Suc (Suc (pos b))) = dquote"
    using d0 d1 d2 d3 by simp_all
  have ps2: "parse_string_loop acc (b\<lparr>pos := Suc (Suc (pos b))\<rparr>)
      = (Inl (Throw (UnknownEscape (Suc (Suc (pos b))))), b\<lparr>pos := Suc (Suc (pos b))\<rparr>)" for acc
    using c by (subst parse_string_loop.simps)
      (simp add: char_at_def at_index_def dquote_def backslash_def)
  have ps: "parse_string (b\<lparr>pos := Suc (pos b)\<rparr>)
      = (Inl (Throw (UnknownEscape (Suc (Suc (pos b))))), b\<lparr>pos := Suc (Suc (pos b))\<rparr>)"
    unfolding parse_string_def
    using c ps2 by (subst parse_string_loop.simps)
      (simp add: char_at_def at_index_def dquote_def backslash_def)
  have sk: "skip_whitespace b = Some b"
    using c by (intro skip_whitespace_nonspace) (simp_all add: dquote_def)
  show ?thesis
    using c sk ps
    by (simp add: parse_json.simps new_JSONItem_def char_at_in can_read_1 string_branch_def
        assign_def deref_def catch_and_finish_def delete_item_def zero_item_def)
qed

lemma max_nesting_escaped_quote:
  "max_nesting_from d (escaped_quote_text @ s) = max_nesting_from d s"
  by (simp add: escaped_quote_text_def dquote_def backslash_def)

lemma max_nesting_nest_arrays:
  "max_nesting (nest (replicate n ArrayLevel) ''null'') = n"
  "max_nesting (nest (replicate n ArrayLevel) escaped_quote_text) = n"
  by (simp_all add: max_nesting_def nest_arrays max_nesting_opens max_nesting_escaped_quote
      max_nesting_closes)

lemma escaped_quote_at_limit_throws:
  "outcome (parse (nest (replicate 1000 ArrayLevel) escaped_quote_text)) = Inl (Throw (UnknownEscape 1002))"
proof -
  let ?ls = "replicate 1000 ArrayLevel"
  let ?post = "concat (map closer (rev ?ls))"
  let ?s = "nest ?ls escaped_quote_text"
  let ?b = "fresh_buffer ?s"
  have s: "?s = openers ?ls @ dquote # (tl escaped_quote_text @ ?post)"
    by (simp add: nest_openers escaped_quote_text_def)
  have raw: "drop (pos ?b) (raw_json ?b) = openers ?ls @ dquote # (tl escaped_quote_text @ ?post)"
    using s by (simp add: fresh_buffer_def)
  have c: "\<not> isspace dquote" "dquote \<noteq> CHR '']''" by (simp_all add: dquote_def)
  have fuel: "length ?ls \<le> length ?s"
    using length_openers_le[of ?ls] by (simp add: nest_openers)
  let ?bi = "?b\<lparr>depth := depth ?b + of_nat (length ?ls), pos := pos ?b + length (openers ?ls)\<rparr>"
  have rawi: "drop (pos ?bi) (raw_json ?bi) = escaped_quote_text @ ?post"
    by (simp add: fresh_buffer_def nest_openers)
  have inner: "parse_json (Suc f') ?bi h' =
      (Inl (Throw (UnknownEscape (pos ?bi + 2))), ?bi\<lparr>pos := pos ?bi + 2\<rparr>, h' @ [None])" for f' h'
    by (rule escaped_quote_throws[OF rawi])
  have "parse_json (Suc (length ?s)) ?b [] =
      (Inl (Throw (UnknownEscape (pos ?bi + 2))), ?bi\<lparr>pos := pos ?bi + 2\<rparr>,
       [] @ replicate (length ?ls) None @ [None])"
    by (rule descent_throws[OF raw plain_levels_arrays _ c fuel inner]) (simp add: fresh_buffer_def)
  then show ?thesis
    by (simp add: parse_def outcome_def fresh_buffer_def openers_replicate)
qed

lemma nest_1001_throws:
  "outcome (parse (nest (replicate 1001 ArrayLevel) ''null''))
     = Inl (Throw (NestingLimitExceeded j_array 1001))"
proof -
  have n: "(1001::nat) = Suc 1000" by simp
  have "parse (openers (replicate 1001 ArrayLevel) @ (''null'' @ concat (map closer (rev (replicate 1001 ArrayLevel)))))
     = (Inl (Throw (NestingLimitExceeded (kind (last (replicate 1001 ArrayLevel)))
             (length (openers (butlast (replicate 1001 ArrayLevel))) + 1))),
        \<lparr>raw_json = openers (replicate 1001 ArrayLevel) @ (''null'' @ concat (map closer (rev (replicate 1001 ArrayLevel)))),
           depth = 1001, pos = length (openers (butlast (replicate 1001 ArrayLevel))) + 1\<rparr>,
        replicate (length (replicate 1001 ArrayLevel)) None)"
    by (rule limit_parse_throws[OF plain_levels_arrays]) simp
  then have "outcome (parse (nest (replicate 1001 ArrayLevel) ''null''))
     = Inl (Throw (NestingLimitExceeded (kind (last (replicate 1001 ArrayLevel)))
             (length (openers (butlast (replicate 1001 ArrayLevel))) + 1)))"
    by (simp add: nest_openers outcome_def)
  then show ?thesis
    unfolding n butlast_replicate_Suc openers_replicate by simp
qed

lemma nest_1000_returns:
  "outcome (parse (nest (replicate 1000 ArrayLevel) ''null'')) = Inr 0"
  using nest_parse_returns[OF plain_levels_arrays, of "''null''" 1000]
  by (simp add: outcome_def literals_def)

lemma array_second_throws:
  assumes at: "pos b < length (raw_json b)" "raw_json b ! pos b = CHR ''[''"
    and lim: "\<not> PARSER_NESTING_LIMIT < depth b + 1"
    and c1: "Suc (pos b) < length (raw_json b)" "\<not> isspace (raw_json b ! Suc (pos b))"
        "raw_json b ! Suc (pos b) \<noteq> CHR '']''"
    and elem: "parse_json (Suc f) (b\<lparr>pos := pos b + 1, depth := depth b + 1\<rparr>)
                 (h @ [Some (zero_item\<lparr>type := j_array\<rparr>)]) = (Inr p, b2, h2)"
    and b2: "pos b2 < length (raw_json b2)" "raw_json b2 ! pos b2 = CHR '',''"
    and c2: "Suc (pos b2) < length (raw_json b2)" "\<not> isspace (raw_json b2 ! Suc (pos b2))"
        "raw_json b2 ! Suc (pos b2) \<noteq> CHR '']''"
    and inner: "parse_json (Suc f) (b2\<lparr>pos := pos b2 + 1\<rparr>) h2 = (Inl (Throw e), b3, h3)"
    and frame: "length h < length h3" "h3 ! length h = Some (zero_item\<lparr>type := j_array\<rparr>)"
  shows "parse_json (Suc (Suc f)) b h = (Inl (Throw e), b3, h3[length h := None])"
  using assms
  apply (subst parse_json.simps)
  apply (simp add: new_JSONItem_def skip_whitespace_nonspace char_at_in can_read_1 dquote_def
      container_branch_def assign_def deref_def parse_array_def catch_and_finish_def delete_item_def
      link_item_def zero_item_def)
  done

lemma sibling_nesting: "max_nesting sibling_nesting_text = 1001"
proof -
  have "max_nesting_from (Suc 0) (replicate 1000 (CHR ''['') @ ''null'' @ replicate 1000 (CHR '']'') @ '']'')
      = 1001"
    unfolding max_nesting_opens
    by (simp add: max_nesting_closes_append)
  then show ?thesis
    by (simp add: max_nesting_def sibling_nesting_text_def nest_arrays)
qed

lemma sibling_nesting_throws:
  "outcome (parse sibling_nesting_text) = Inl (Throw (NestingLimitExceeded j_array 1003))"
proof -
  let ?ls = "replicate 999 ArrayLevel"
  let ?t = "''null'' @ replicate 1000 (CHR '']'') @ '']''"
  let ?s = "sibling_nesting_text"
  let ?b = "fresh_buffer ?s"
  have r: "replicate 1000 (CHR ''['') = replicate 999 (CHR ''['') @ ''[''"
  proof -
    have n: "(1000::nat) = Suc 999" by simp
    show ?thesis unfolding n by (simp only: replicate_Suc replicate_append_same)
  qed
  have s: "?s = CHR ''['' # CHR ''1'' # CHR '','' # (openers ?ls @ CHR ''['' # ?t)"
    unfolding sibling_nesting_text_def nest_arrays openers_replicate r by simp
  obtain k where k: "length ?s = Suc k" "999 \<le> k"
    unfolding s by (simp add: openers_replicate)
  let ?arr = "Some (zero_item\<lparr>type := j_array\<rparr>)"
  let ?b1 = "?b\<lparr>pos := pos ?b + 1, depth := depth ?b + 1\<rparr>"
  let ?b2 = "?b1\<lparr>pos := pos ?b1 + 1\<rparr>"
  let ?h2 = "[?arr] @ [Some (number_item (Finite 1))]"
  let ?b3 = "?b2\<lparr>pos := pos ?b2 + 1\<rparr>"
  have elem: "parse_json (Suc k) ?b1 ([] @ [?arr]) = (Inr 1, ?b2, ?h2)"
    using number_one_returns[of ?b1 "openers ?ls @ CHR ''['' # ?t" k "[?arr]"]
    by (simp add: fresh_buffer_def s)
  have raw3: "drop (pos ?b3) (raw_json ?b3) = openers ?ls @ CHR ''['' # ?t"
    by (simp add: fresh_buffer_def s)
  let ?bi = "?b3\<lparr>depth := depth ?b3 + of_nat (length ?ls), pos := pos ?b3 + length (openers ?ls)\<rparr>"
  let ?e = "NestingLimitExceeded j_array 1003"
  let ?b' = "?bi\<lparr>pos := pos ?bi + 1, depth := depth ?bi + 1\<rparr>"
  have at: "pos ?bi < length (raw_json ?bi)" "raw_json ?bi ! pos ?bi = CHR ''[''"
    by (simp_all add: fresh_buffer_def s openers_replicate nth_append)
  have dl: "PARSER_NESTING_LIMIT < depth ?bi + 1"
    by (rule depth_limit) (simp add: fresh_buffer_def)
  have inner0: "parse_json (Suc f') ?bi h' = (Inl (Throw ?e), ?b', h' @ [None])" for f' h'
    using array_entry_limit[OF at dl, of f' h'] by (simp add: fresh_buffer_def openers_replicate)
  have inner: "parse_json (Suc k) ?b3 ?h2 = (Inl (Throw ?e), ?b', ?h2 @ replicate (length ?ls) None @ [None])"
    by (rule descent_throws[OF raw3 plain_levels_arrays _ _ _ _ inner0])
       (use k in \<open>simp_all add: fresh_buffer_def\<close>)
  have "parse_json (Suc (Suc k)) ?b [] =
      (Inl (Throw ?e), ?b', (?h2 @ replicate (length ?ls) None @ [None])[length ([]::heap) := None])"
    apply (rule array_second_throws[where ?b2.0 = ?b2 and ?h2.0 = ?h2 and p = 1])
    using elem inner
    by (simp_all add: fresh_buffer_def s PARSER_NESTING_LIMIT_def openers_replicate nth_append isspace_def)
  then show ?thesis
    by (simp add: parse_def outcome_def k)
qed

section \<open>The claims\<close>

text \<open>
  C1. Claim: a failed parse frees every node it allocated, so that the caller has
  nothing to free. The code does not: on \<^verbatim>\<open>[1,x]\<close> the parse fails with "invalid json"
  while the item of the element \<^verbatim>\<open>1\<close>, already linked as head of the array's chain,
  stays allocated (the chain is a local of \<^verbatim>\<open>parse_array\<close>, which has no handler);
  on \<^verbatim>\<open>1five\<close> the parse fails with "trailing junk", thrown after the \<^verbatim>\<open>try\<close> block,
  and the root item stays allocated. On \<^verbatim>\<open>x\<close>, where the error is thrown inside the
  \<^verbatim>\<open>try\<close> block of the only call, nothing stays allocated.
\<close>

theorem C1_failed_parse_leaks_items:
  "outcome (parse ''[1,x]'') = Inl (Throw InvalidJSON)
   \<and> live (final_heap (parse ''[1,x]'')) = [1]
   \<and> outcome (parse ''1five'') = Inl (Throw TrailingJunk)
   \<and> live (final_heap (parse ''1five'')) = [0]
   \<and> outcome (parse ''x'') = Inl (Throw InvalidJSON)
   \<and> live (final_heap (parse ''x'')) = []"
  by code_simp

theorem C1_failed_parse_leaks_items_witness:
  "live (final_heap (parse ''[1,x]'')) \<noteq> []"
  using C1_failed_parse_leaks_items by simp

text \<open>
  C2. Claim: every recognised escape decodes without an error; the text
  \<^verbatim>\<open>"a\"b"\<close> decodes to \<^verbatim>\<open>a"b\<close>. The code throws "unknown escape sequence" at the
  backslash (position 2): the cases for the quote, the backslash and the slash have no
  \<^verbatim>\<open>break\<close> and run into \<^verbatim>\<open>default\<close>. The escapes \<^verbatim>\<open>\b \f \n \r \t\<close> decode.
\<close>

theorem C2_escaped_quote_is_unknown_escape:
  "fst (parse_string \<lparr>raw_json = escaped_quote_text, depth = 0, pos = 1\<rparr>)
     = Inl (Throw (UnknownEscape 2))
   \<and> outcome (parse escaped_quote_text) = Inl (Throw (UnknownEscape 2))
   \<and> fst (parse_string \<lparr>raw_json = control_escapes_text, depth = 0, pos = 1\<rparr>)
       = Inr [CHR 0x08, CHR 0x0C, CHR 0x0A, CHR 0x0D, CHR 0x09]"
  by code_simp

theorem C2_escaped_quote_is_unknown_escape_witness:
  "outcome (parse escaped_quote_text) \<noteq> Inr 0"
  using C2_escaped_quote_is_unknown_escape by simp

text \<open>
  C3. Claim: the depth counter is back at its value before the call whenever a parser
  function returns, so that it is 0 after every top-level parse. The code leaves it
  raised on the empty-container path and on error exits: after the successful parse
  of \<^verbatim>\<open>[]\<close> the depth is 1, and so it is after the failed parse of \<^verbatim>\<open>[1,x]\<close>.
\<close>

theorem C3_depth_stays_raised:
  "outcome (parse ''[]'') = Inr 0
   \<and> depth (final_buffer (parse ''[]'')) = 1
   \<and> outcome (parse ''[1,x]'') = Inl (Throw InvalidJSON)
   \<and> depth (final_buffer (parse ''[1,x]'')) = 1"
  by code_simp

theorem C3_depth_stays_raised_witness:
  "depth (final_buffer (parse ''[]'')) \<noteq> 0"
  using C3_depth_stays_raised by simp

text \<open>
  C4. Claim: the child chain of an array or object holds one node for every element,
  in source order, also when elements are empty containers. On \<^verbatim>\<open>[[],1]\<close> the code
  returns an array whose chain holds one node, the empty array; the element \<^verbatim>\<open>1\<close> is
  never read (the cursor stops at position 3), because the empty-container path
  returns without consuming the closing bracket, which then closes the outer array.
\<close>

theorem C4_empty_container_cuts_chain:
  "outcome (parse ''[[],1]'') = Inr 0
   \<and> children (final_heap (parse ''[[],1]'')) 0 = Some [zero_item\<lparr>type := j_array\<rparr>]
   \<and> pos (final_buffer (parse ''[[],1]'')) = 3"
  by code_simp

theorem C4_empty_container_cuts_chain_witness:
  "map_option length (children (final_heap (parse ''[[],1]'')) 0) = Some 1"
  using C4_empty_container_cuts_chain by simp

text \<open>
  C5. Claim: a complete top-level value followed by anything but white space fails with
  "trailing junk". On \<^verbatim>\<open>[]x\<close> the code succeeds: the empty-container path leaves the
  depth at 1, and the check for trailing junk is made only at depth 0. On \<^verbatim>\<open>1five\<close>
  the check works.
\<close>

theorem C5_junk_after_empty_array_accepted:
  "outcome (parse ''[]x'') = Inr 0
   \<and> pos (final_buffer (parse ''[]x'')) = 1
   \<and> outcome (parse ''1five'') = Inl (Throw TrailingJunk)"
  by code_simp

theorem C5_junk_after_empty_array_accepted_witness:
  "outcome (parse ''[]x'') \<noteq> Inl (Throw TrailingJunk)"
  using C5_junk_after_empty_array_accepted by simp

text \<open>
  C6. Claim: the cursor never passes the end of the input, also on an unterminated
  string literal. On \<^verbatim>\<open>"abc\<close> (4 bytes), \<^verbatim>\<open>parse_string\<close> leaves its loop at the end of
  the input and then consumes a closing quote that is not there: it returns with
  \<^verbatim>\<open>pos\<close> 5. The next read, in \<^verbatim>\<open>skip_whitespace\<close>, is out of range.
\<close>

theorem C6_unterminated_string_passes_end:
  "length unterminated_text = 4
   \<and> parse_string \<lparr>raw_json = unterminated_text, depth = 0, pos = 1\<rparr>
       = (Inr ''abc'', \<lparr>raw_json = unterminated_text, depth = 0, pos = 5\<rparr>)
   \<and> outcome (parse unterminated_text) = Inl Undefined
   \<and> pos (final_buffer (parse unterminated_text)) = 5"
  by code_simp

theorem C6_unterminated_string_passes_end_witness:
  "length unterminated_text < pos (final_buffer (parse unterminated_text))"
  using C6_unterminated_string_passes_end by simp

text \<open>
  C7. Claim: an input whose deepest nesting is the limit parses, and an input that
  reaches one level more fails with "max nesting limit exceeded", detected at entry to
  the array or object parser. The check at entry is there: at an opening bracket or
  brace with the depth counter at the limit, the dispatcher throws that error. But the
  counter does not follow the nesting of the input. On \<^verbatim>\<open>[[],[[...[null]...]]]\<close>, where
  the second element is \<^verbatim>\<open>null\<close> inside 1000 arrays (nesting 1001), the code returns an
  array with one child after three bytes: the path for an empty container returns
  without consuming the closing bracket, which then closes the outer array, and the
  nested arrays are never read. With \<^verbatim>\<open>1\<close> as first element the same text fails with
  the error of the limit (at position 1003), as does \<^verbatim>\<open>null\<close> inside 1001 arrays (at
  position 1001); \<^verbatim>\<open>null\<close> inside 1000 arrays parses. The text \<^verbatim>\<open>"a\"b"\<close> inside
  1000 arrays, of nesting 1000, fails with "unknown escape sequence".
\<close>

theorem C7_empty_sibling_hides_nesting:
  "max_nesting hidden_nesting_text = unat PARSER_NESTING_LIMIT + 1
   \<and> outcome (parse hidden_nesting_text) = Inr 0
   \<and> pos (final_buffer (parse hidden_nesting_text)) = 3
   \<and> children (final_heap (parse hidden_nesting_text)) 0 = Some [zero_item\<lparr>type := j_array\<rparr>]
   \<and> max_nesting sibling_nesting_text = unat PARSER_NESTING_LIMIT + 1
   \<and> outcome (parse sibling_nesting_text) = Inl (Throw (NestingLimitExceeded j_array 1003))
   \<and> max_nesting (nest (replicate 1001 ArrayLevel) ''null'') = unat PARSER_NESTING_LIMIT + 1
   \<and> outcome (parse (nest (replicate 1001 ArrayLevel) ''null''))
       = Inl (Throw (NestingLimitExceeded j_array 1001))
   \<and> max_nesting (nest (replicate 1000 ArrayLevel) ''null'') = unat PARSER_NESTING_LIMIT
   \<and> outcome (parse (nest (replicate 1000 ArrayLevel) ''null'')) = Inr 0
   \<and> max_nesting (nest (replicate 1000 ArrayLevel) escaped_quote_text) = unat PARSER_NESTING_LIMIT
   \<and> outcome (parse (nest (replicate 1000 ArrayLevel) escaped_quote_text))
       = Inl (Throw (UnknownEscape 1002))
   \<and> (\<forall>f b h. pos b < length (raw_json b) \<and> raw_json b ! pos b = CHR ''[''
          \<and> PARSER_NESTING_LIMIT < depth b + 1 \<longrightarrow>
        outcome (parse_json (Suc f) b h)
          = Inl (Throw (NestingLimitExceeded j_array (pos b + 1))))
   \<and> (\<forall>f b h. pos b < length (raw_json b) \<and> raw_json b ! pos b = CHR ''{''
          \<and> PARSER_NESTING_LIMIT < depth b + 1 \<longrightarrow>
        outcome (parse_json (Suc f) b h)
          = Inl (Throw (NestingLimitExceeded j_object (pos b + 1))))"
proof -
  have lim: "unat PARSER_NESTING_LIMIT = 1000"
    by (simp add: PARSER_NESTING_LIMIT_def)
  have h: "hidden_nesting_text = ''[[]'' @ CHR '','' # (nest (replicate 1000 ArrayLevel) ''null'' @ '']'')"
    by (simp add: hidden_nesting_text_def)
  have p: "parse hidden_nesting_text =
     (Inr 0, \<lparr>raw_json = hidden_nesting_text, depth = 1, pos = 3\<rparr>,
      [Some (zero_item\<lparr>type := j_array, child := Some 1\<rparr>), Some (zero_item\<lparr>type := j_array\<rparr>)])"
    unfolding h by (rule empty_first_element) simp
  have ch: "children (final_heap (parse hidden_nesting_text)) 0 = Some [zero_item\<lparr>type := j_array\<rparr>]"
    unfolding p by (simp add: final_heap_def children_def deref_def zero_item_def numeral_2_eq_2)
  have hidden: "max_nesting hidden_nesting_text = unat PARSER_NESTING_LIMIT + 1"
    "outcome (parse hidden_nesting_text) = Inr 0"
    "pos (final_buffer (parse hidden_nesting_text)) = 3"
    using hidden_nesting unfolding lim by (simp_all add: p outcome_def final_buffer_def)
  have sibling: "max_nesting sibling_nesting_text = unat PARSER_NESTING_LIMIT + 1"
    using sibling_nesting unfolding lim by simp
  have nests: "max_nesting (nest (replicate 1001 ArrayLevel) ''null'') = unat PARSER_NESTING_LIMIT + 1"
    "max_nesting (nest (replicate 1000 ArrayLevel) ''null'') = unat PARSER_NESTING_LIMIT"
    "max_nesting (nest (replicate 1000 ArrayLevel) escaped_quote_text) = unat PARSER_NESTING_LIMIT"
    unfolding lim max_nesting_nest_arrays by simp_all
  have entry_array: "\<forall>f b h. pos b < length (raw_json b) \<and> raw_json b ! pos b = CHR ''[''
          \<and> PARSER_NESTING_LIMIT < depth b + 1 \<longrightarrow>
        outcome (parse_json (Suc f) b h)
          = Inl (Throw (NestingLimitExceeded j_array (pos b + 1)))"
    by (simp add: array_entry_limit outcome_def)
  have entry_object: "\<forall>f b h. pos b < length (raw_json b) \<and> raw_json b ! pos b = CHR ''{''
          \<and> PARSER_NESTING_LIMIT < depth b + 1 \<longrightarrow>
        outcome (parse_json (Suc f) b h)
          = Inl (Throw (NestingLimitExceeded j_object (pos b + 1)))"
    by (simp add: object_entry_limit outcome_def)
  show ?thesis
    by (intro conjI hidden ch sibling sibling_nesting_throws nests nest_1001_throws
        nest_1000_returns escaped_quote_at_limit_throws entry_array entry_object)
qed

theorem C7_empty_sibling_hides_nesting_witness:
  "outcome (parse hidden_nesting_text) \<noteq> outcome (parse sibling_nesting_text)
   \<and> outcome (parse_json 1 \<lparr>raw_json = ''[]'', depth = 1000, pos = 0\<rparr> [])
       = Inl (Throw (NestingLimitExceeded j_array 1))
   \<and> outcome (parse_json 1 \<lparr>raw_json = ''{}'', depth = 1000, pos = 0\<rparr> [])
       = Inl (Throw (NestingLimitExceeded j_object 1))"
proof -
  note t = C7_empty_sibling_hides_nesting
  have 1: "outcome (parse hidden_nesting_text) \<noteq> outcome (parse sibling_nesting_text)"
    using t by simp
  have 2: "outcome (parse_json 1 \<lparr>raw_json = ''[]'', depth = 1000, pos = 0\<rparr> [])
       = Inl (Throw (NestingLimitExceeded j_array 1))"
    using t[THEN conjunct2, THEN conjunct2, THEN conjunct2, THEN conjunct2, THEN conjunct2,
        THEN conjunct2, THEN conjunct2, THEN conjunct2, THEN conjunct2, THEN conjunct2,
        THEN conjunct2, THEN conjunct2, THEN conjunct1, rule_format,
        of "\<lparr>raw_json = ''[]'', depth = 1000, pos = 0\<rparr>" 0 "[]"]
    by (simp add: PARSER_NESTING_LIMIT_def)
  have 3: "outcome (parse_json 1 \<lparr>raw_json = ''{}'', depth = 1000, pos = 0\<rparr> [])
       = Inl (Throw (NestingLimitExceeded j_object 1))"
    using t[THEN conjunct2, THEN conjunct2, THEN conjunct2, THEN conjunct2, THEN conjunct2,
        THEN conjunct2, THEN conjunct2, THEN conjunct2, THEN conjunct2, THEN conjunct2,
        THEN conjunct2, THEN conjunct2, THEN conjunct2, rule_format,
        of "\<lparr>raw_json = ''{}'', depth = 1000, pos = 0\<rparr>" 0 "[]"]
    by (simp add: PARSER_NESTING_LIMIT_def)
  show ?thesis using 1 2 3 by simp
qed

text \<open>
  C8. Parsing \<^verbatim>\<open>5.9\<close> succeeds; the root is a number with value 5.9, without name,
  without siblings and without child. (The value is the exact one of the lexeme, 59/10.)
\<close>

theorem C8_parse_5_9:
  "root_item (parse ''5.9'') = Some (zero_item\<lparr>type := j_number, double_val := Finite (59 / 10)\<rparr>)
   \<and> name (the (root_item (parse ''5.9''))) = []
   \<and> next_item (the (root_item (parse ''5.9''))) = None
   \<and> prev_item (the (root_item (parse ''5.9''))) = None
   \<and> child (the (root_item (parse ''5.9''))) = None
   \<and> live (final_heap (parse ''5.9'')) = [0]"
  by code_simp

theorem C8_parse_5_9_witness:
  "map_option type (root_item (parse ''5.9'')) = Some j_number"
  using C8_parse_5_9 by simp

text \<open>
  C9. Parsing the empty input fails with "invalid json" at position 0: \<^verbatim>\<open>can_read\<close> is
  false for every count on an empty input, so no branch of the dispatcher is taken;
  nothing is read out of range (the outcome is a thrown error, not undefined behaviour).
\<close>

theorem C9_empty_input_is_invalid_json:
  "(\<forall>n. can_read (fresh_buffer []) n = False)
   \<and> outcome (parse []) = Inl (Throw InvalidJSON)
   \<and> pos (final_buffer (parse [])) = 0"
proof -
  have "\<forall>n. can_read (fresh_buffer []) n = False"
    by (simp add: can_read_def fresh_buffer_def)
  moreover have "outcome (parse []) = Inl (Throw InvalidJSON)"
    by code_simp
  moreover have "pos (final_buffer (parse [])) = 0"
    by code_simp
  ultimately show ?thesis by blast
qed

theorem C9_empty_input_is_invalid_json_witness:
  "outcome (parse []) \<noteq> Inl Undefined \<and> \<not> can_read (fresh_buffer []) 1"
  using C9_empty_input_is_invalid_json by simp

text \<open>
  C10. The number scanner takes what \<^verbatim>\<open>strtod\<close> takes. For every buffer,
  \<^verbatim>\<open>parse_number\<close> throws "bad double" when \<^verbatim>\<open>strtod\<close> converts nothing, and returns
  the value of \<^verbatim>\<open>strtod\<close> with the cursor advanced by the bytes \<^verbatim>\<open>strtod\<close> consumed
  otherwise. The dispatcher sends every input that starts with a sign or a digit to the
  scanner: the parse returns a number item with the value of \<^verbatim>\<open>strtod\<close> when only
  white space follows the lexeme, and throws "trailing junk" when more follows.
  Parsing \<^verbatim>\<open>0x10\<close> succeeds with a number of value 16, all four bytes consumed. The
  other forms of the syntax of \<^verbatim>\<open>strtod\<close> are taken as well: hexadecimal with a
  fraction and a binary exponent, decimal with a fraction and an exponent (an exponent
  marker without digits is left unread, as is the \<^verbatim>\<open>x\<close> of \<^verbatim>\<open>0x\<close> without digits), a
  value beyond the range of a \<^verbatim>\<open>double\<close> (an infinity), and after a sign \<^verbatim>\<open>inf\<close>,
  \<^verbatim>\<open>infinity\<close>, \<^verbatim>\<open>nan\<close> and \<^verbatim>\<open>nan(...)\<close> in either case. A sign alone is a "bad
  double"; \<^verbatim>\<open>inf\<close> without a sign does not reach the scanner and is "invalid json".
\<close>

theorem C10_number_scanner_is_strtod:
  "(\<forall>b. pos b \<le> length (raw_json b) \<longrightarrow>
      parse_number b =
        (case strtod (c_string (drop (pos b) (raw_json b))) of
           (v, n) \<Rightarrow>
             if n = 0 then (Inl (Throw (BadNumber (pos b))), b)
             else (Inr v, b\<lparr>pos := pos b + n\<rparr>)))
   \<and> (\<forall>s. s \<noteq> [] \<and> (hd s = CHR ''-'' \<or> hd s = CHR ''+'' \<or> isdigit (hd s)) \<longrightarrow>
        parse s =
          (case strtod (c_string s) of
             (v, n) \<Rightarrow>
               if n = 0 then (Inl (Throw (BadNumber 0)), fresh_buffer s, [None])
               else
                 let k = n + length (takeWhile isspace (drop n s))
                 in if k \<noteq> length s
                    then (Inl (Throw TrailingJunk), (fresh_buffer s)\<lparr>pos := k\<rparr>,
                          [Some (number_item v)])
                    else (Inr 0, (fresh_buffer s)\<lparr>pos := k\<rparr>, [Some (number_item v)])))
   \<and> root_item (parse ''0x10'') = Some (zero_item\<lparr>type := j_number, double_val := Finite 16\<rparr>)
   \<and> pos (final_buffer (parse ''0x10'')) = 4
   \<and> strtod ''0x10'' = (Finite 16, 4)
   \<and> strtod ''0x1p4'' = (Finite 16, 5)
   \<and> strtod ''-0X1.8P+1'' = (Finite (- 3), 9)
   \<and> strtod ''0x'' = (Finite 0, 1)
   \<and> strtod ''1e2'' = (Finite 100, 3)
   \<and> strtod ''-2.5e-1'' = (Finite (- 1 / 4), 7)
   \<and> strtod ''+.5'' = (Finite (1 / 2), 3)
   \<and> strtod ''1.'' = (Finite 1, 2)
   \<and> strtod ''1e'' = (Finite 1, 1)
   \<and> strtod ''1e999'' = (Infinity False, 5)
   \<and> strtod ''-inf'' = (Infinity True, 4)
   \<and> strtod ''+InFiNiTy'' = (Infinity False, 9)
   \<and> strtod ''+nan'' = (NaN, 4)
   \<and> strtod ''-NAN(a_1)'' = (NaN, 9)
   \<and> strtod ''-'' = (Finite 0, 0)
   \<and> root_item (parse ''0x1p4'') = Some (number_item (Finite 16))
   \<and> root_item (parse ''1e2'') = Some (number_item (Finite 100))
   \<and> root_item (parse ''-inf'') = Some (number_item (Infinity True))
   \<and> root_item (parse ''+nan'') = Some (number_item NaN)
   \<and> outcome (parse ''-'') = Inl (Throw (BadNumber 0))
   \<and> outcome (parse ''inf'') = Inl (Throw InvalidJSON)"
proof -
  have scanner: "\<forall>b. pos b \<le> length (raw_json b) \<longrightarrow>
      parse_number b =
        (case strtod (c_string (drop (pos b) (raw_json b))) of
           (v, n) \<Rightarrow>
             if n = 0 then (Inl (Throw (BadNumber (pos b))), b)
             else (Inr v, b\<lparr>pos := pos b + n\<rparr>))"
    using parse_number_eq by blast
  have dispatcher: "\<forall>s. s \<noteq> [] \<and> (hd s = CHR ''-'' \<or> hd s = CHR ''+'' \<or> isdigit (hd s)) \<longrightarrow>
        parse s =
          (case strtod (c_string s) of
             (v, n) \<Rightarrow>
               if n = 0 then (Inl (Throw (BadNumber 0)), fresh_buffer s, [None])
               else
                 let k = n + length (takeWhile isspace (drop n s))
                 in if k \<noteq> length s
                    then (Inl (Throw TrailingJunk), (fresh_buffer s)\<lparr>pos := k\<rparr>,
                          [Some (number_item v)])
                    else (Inr 0, (fresh_buffer s)\<lparr>pos := k\<rparr>, [Some (number_item v)]))"
  proof (intro allI impI)
    fix s :: string
    assume a: "s \<noteq> [] \<and> (hd s = CHR ''-'' \<or> hd s = CHR ''+'' \<or> isdigit (hd s))"
    obtain v n where st: "strtod (c_string s) = (v, n)" by fastforce
    show "parse s =
          (case strtod (c_string s) of
             (v, n) \<Rightarrow>
               if n = 0 then (Inl (Throw (BadNumber 0)), fresh_buffer s, [None])
               else
                 let k = n + length (takeWhile isspace (drop n s))
                 in if k \<noteq> length s
                    then (Inl (Throw TrailingJunk), (fresh_buffer s)\<lparr>pos := k\<rparr>,
                          [Some (number_item v)])
                    else (Inr 0, (fresh_buffer s)\<lparr>pos := k\<rparr>, [Some (number_item v)]))"
      unfolding st prod.case using a by (intro number_parse[OF _ _ st]) simp_all
  qed
  have hex: "root_item (parse ''0x10'') = Some (zero_item\<lparr>type := j_number, double_val := Finite 16\<rparr>)"
    "pos (final_buffer (parse ''0x10'')) = 4"
    "strtod ''0x10'' = (Finite 16, 4)"
    "strtod ''0x1p4'' = (Finite 16, 5)"
    "strtod ''-0X1.8P+1'' = (Finite (- 3), 9)"
    "strtod ''0x'' = (Finite 0, 1)"
    by code_simp+
  have dec: "strtod ''1e2'' = (Finite 100, 3)"
    "strtod ''-2.5e-1'' = (Finite (- 1 / 4), 7)"
    "strtod ''+.5'' = (Finite (1 / 2), 3)"
    "strtod ''1.'' = (Finite 1, 2)"
    "strtod ''1e'' = (Finite 1, 1)"
    by code_simp+
  have inf: "strtod ''-inf'' = (Infinity True, 4)"
    "strtod ''+InFiNiTy'' = (Infinity False, 9)"
    "strtod ''+nan'' = (NaN, 4)"
    "strtod ''-NAN(a_1)'' = (NaN, 9)"
    "strtod ''-'' = (Finite 0, 0)"
    by code_simp+
  have top: "root_item (parse ''0x1p4'') = Some (number_item (Finite 16))"
    "root_item (parse ''1e2'') = Some (number_item (Finite 100))"
    "root_item (parse ''-inf'') = Some (number_item (Infinity True))"
    "root_item (parse ''+nan'') = Some (number_item NaN)"
    "outcome (parse ''-'') = Inl (Throw (BadNumber 0))"
    "outcome (parse ''inf'') = Inl (Throw InvalidJSON)"
    by code_simp+
  show ?thesis
    by (intro conjI scanner dispatcher hex dec strtod_overflow inf top)
qed

theorem C10_number_scanner_is_strtod_witness:
  "parse_number \<lparr>raw_json = ''[0x1p4]'', depth = 1, pos = 1\<rparr>
     = (Inr (Finite 16), \<lparr>raw_json = ''[0x1p4]'', depth = 1, pos = 6\<rparr>)
   \<and> parse ''-0X1.8P+1 ''
     = (Inr 0, \<lparr>raw_json = ''-0X1.8P+1 '', depth = 0, pos = 10\<rparr>, [Some (number_item (Finite (- 3)))])"
proof -
  have a: "strtod (c_string ''0x1p4]'') = (Finite 16, 5)" by code_simp
  have b: "strtod (c_string ''-0X1.8P+1 '') = (Finite (- 3), 9)" by code_simp
  have c: "length (takeWhile isspace '' '') = 1" by code_simp
  have 1: "parse_number \<lparr>raw_json = ''[0x1p4]'', depth = 1, pos = 1\<rparr>
     = (Inr (Finite 16), \<lparr>raw_json = ''[0x1p4]'', depth = 1, pos = 6\<rparr>)"
    using C10_number_scanner_is_strtod[THEN conjunct1, rule_format,
        of "\<lparr>raw_json = ''[0x1p4]'', depth = 1, pos = 1\<rparr>"]
    by (simp add: a)
  have 2: "parse ''-0X1.8P+1 ''
     = (Inr 0, \<lparr>raw_json = ''-0X1.8P+1 '', depth = 0, pos = 10\<rparr>, [Some (number_item (Finite (- 3)))])"
    using C10_number_scanner_is_strtod[THEN conjunct2, THEN conjunct1, rule_format, of "''-0X1.8P+1 ''"]
    by (simp add: b c fresh_buffer_def isspace_def)
  show ?thesis using 1 2 by simp
qed

end
